theory Spec2Isabelle
  imports Complex_Main
begin

section \<open>The Moltbook API client (carcinologer/api.py)\<close>

subsection \<open>Python values\<close>

text \<open>
  The value that \<^verbatim>\<open>r.json()\<close> returns: \<^verbatim>\<open>None\<close>, a bool, an int, a float, a str,
  a list or a dict. A dict is an association list in insertion order whose keys are
  distinct (as \<^verbatim>\<open>json.loads\<close> builds it); a float is a real number here.
\<close>

datatype pyval =
    PNone
  | PBool bool
  | PInt int
  | PFloat real
  | PStr string
  | PList "pyval list"
  | PDict "(string \<times> pyval) list"

text \<open>The exceptions that can leave the functions modelled below.\<close>

datatype pyerr =
    TimeoutException string
  | TransportError string
  | HTTPStatusError int
  | JSONDecodeError
  | AttributeError
  | TypeError
  | KeyError string
  | ValueError
  | OverflowError
  | UnboundLocalError

text \<open>Python truthiness, as \<^verbatim>\<open>if x:\<close> and \<^verbatim>\<open>not x\<close> test it.\<close>

fun truthy :: "pyval \<Rightarrow> bool" where
  "truthy PNone = False"
| "truthy (PBool b) = b"
| "truthy (PInt i) = (i \<noteq> 0)"
| "truthy (PFloat x) = (x \<noteq> 0)"
| "truthy (PStr s) = (s \<noteq> [])"
| "truthy (PList xs) = (xs \<noteq> [])"
| "truthy (PDict kvs) = (kvs \<noteq> [])"

text \<open>\<^verbatim>\<open>d.get(k, default)\<close>: only a dict has the method.\<close>

fun py_get :: "pyval \<Rightarrow> string \<Rightarrow> pyval \<Rightarrow> pyerr + pyval" where
  "py_get (PDict kvs) k dflt = (case map_of kvs k of None \<Rightarrow> Inr dflt | Some v \<Rightarrow> Inr v)"
| "py_get _ k dflt = Inl AttributeError"

text \<open>\<^verbatim>\<open>p[k]\<close> with a str key: a missing key of a dict raises KeyError, every other
  value raises TypeError.\<close>

fun py_item :: "pyval \<Rightarrow> string \<Rightarrow> pyerr + pyval" where
  "py_item (PDict kvs) k = (case map_of kvs k of None \<Rightarrow> Inl (KeyError k) | Some v \<Rightarrow> Inr v)"
| "py_item _ k = Inl TypeError"

text \<open>\<^verbatim>\<open>for x in v\<close>: a list gives its elements, a str its characters, a dict its keys;
  the other values are not iterable.\<close>

fun py_iter :: "pyval \<Rightarrow> pyerr + pyval list" where
  "py_iter (PList xs) = Inr xs"
| "py_iter (PStr s) = Inr (map (\<lambda>c. PStr [c]) s)"
| "py_iter (PDict kvs) = Inr (map (\<lambda>kv. PStr (fst kv)) kvs)"
| "py_iter _ = Inl TypeError"

text \<open>\<^verbatim>\<open>xs[:n]\<close>: a negative bound counts from the end.\<close>

definition py_slice_to :: "'a list \<Rightarrow> int \<Rightarrow> 'a list" where
  "py_slice_to xs n =
     (if 0 \<le> n then take (nat n) xs else take (nat (int (length xs) + n)) xs)"

subsection \<open>Records of the data model\<close>

text \<open>
  The dataclasses \<^verbatim>\<open>Post\<close> and \<^verbatim>\<open>Comment\<close>. A dataclass checks no types, so each
  field holds whatever value the response carried. The field names carry a prefix
  (\<open>p_\<close>, \<open>c_\<close>), since \<open>id\<close> is a constant of HOL and the two classes share names.
\<close>

record Post =
  p_id :: pyval
  p_title :: pyval
  p_submolt :: pyval
  p_author :: pyval
  p_upvotes :: pyval
  p_downvotes :: pyval
  p_comment_count :: pyval
  p_created_at :: pyval
  p_content :: pyval
  p_url :: pyval
  p_is_pinned :: pyval

record Comment =
  c_id :: pyval
  c_content :: pyval
  c_author :: pyval
  c_upvotes :: pyval
  c_downvotes :: pyval
  c_created_at :: pyval
  c_post_id :: string
  c_parent_id :: pyval

subsection \<open>The client and its environment\<close>

text \<open>
  \<^verbatim>\<open>MoltbookAPI.__init__\<close> stores the key, the attempt budget and the base delay.
  The delay is a finite Python float, given by the real number it stands for.
\<close>

record MoltbookAPI =
  api_key :: "string option"
  max_retries :: int
  retry_delay :: real

text \<open>\<^verbatim>\<open>not self.api_key\<close>: the key is \<^verbatim>\<open>None\<close> or the empty string.\<close>

definition no_api_key :: "MoltbookAPI \<Rightarrow> bool" where
  "no_api_key api = (case api_key api of None \<Rightarrow> True | Some k \<Rightarrow> k = [])"

text \<open>
  What the client asks for: the path below \<^verbatim>\<open>API_BASE\<close> and the query parameters in
  order. The URL string of the source is the rendering of this value.
\<close>

datatype request_url = Url string "(string \<times> pyval) list"

record response =
  status_code :: int
  body :: "pyval option"

text \<open>
  One call of \<^verbatim>\<open>self.client.request(method, url)\<close>: a response, an
  \<^verbatim>\<open>httpx.TimeoutException\<close> (with its message), or any other exception of the
  transport. The environment decides the outcome from the number of calls made so far,
  the method and the URL.
\<close>

datatype outcome = Response response | Timeout string | Failure string

type_synonym transport = "nat \<Rightarrow> string \<Rightarrow> request_url \<Rightarrow> outcome"

text \<open>
  The effects, as the environment sees them: the number of transport calls made, and the
  trace of the calls of \<^verbatim>\<open>self.client.request\<close> and \<^verbatim>\<open>time.sleep\<close> in the order
  they happen. Printing is left out.
\<close>

datatype event = Requested string request_url | Slept real

record world =
  calls :: nat
  trace :: "event list"

text \<open>
  What the Python runtime does and the repository does not define. \<open>float_times x k\<close>
  is the float that \<^verbatim>\<open>x * k\<close> evaluates to for a float \<open>x\<close> and an int \<open>k\<close>: the
  rounded product, or \<open>None\<close> when the product is not finite (it overflowed to an
  infinity). \<open>sleep_limit\<close> is the longest delay that \<^verbatim>\<open>time.sleep\<close> can represent
  (CPython keeps a delay as a 64-bit count of nanoseconds).
\<close>

record platform =
  float_times :: "real \<Rightarrow> nat \<Rightarrow> real option"
  sleep_limit :: real

text \<open>
  \<^verbatim>\<open>time.sleep(d)\<close> for a finite \<open>d\<close>: it converts the delay first and raises
  OverflowError when it is out of range, then raises ValueError for a negative delay.
\<close>

definition sleep :: "platform \<Rightarrow> real \<Rightarrow> world \<Rightarrow> pyerr + world" where
  "sleep pf d w =
     (if sleep_limit pf < \<bar>d\<bar> then Inl OverflowError
      else if d < 0 then Inl ValueError
      else Inr (w\<lparr>trace := trace w @ [Slept d]\<rparr>))"

text \<open>
  \<^verbatim>\<open>time.sleep(self.retry_delay * (attempt + 1))\<close>: the product is computed in floats;
  an infinite product is out of the range of \<^verbatim>\<open>time.sleep\<close>.
\<close>

definition backoff :: "platform \<Rightarrow> MoltbookAPI \<Rightarrow> nat \<Rightarrow> world \<Rightarrow> pyerr + world" where
  "backoff pf api attempt w =
     (case float_times pf (retry_delay api) (attempt + 1) of
        None \<Rightarrow> Inl OverflowError
      | Some wait \<Rightarrow> sleep pf wait w)"

definition retryable :: "int \<Rightarrow> bool" where
  "retryable sc = (sc \<in> {429, 500, 502, 503, 504})"

subsection \<open>\<^verbatim>\<open>_request\<close>\<close>

text \<open>
  The method \<^verbatim>\<open>_request\<close> is \<open>request\<close> here (a name cannot start with an underscore).
  \<open>request_attempts\<close> is the body of \<^verbatim>\<open>for attempt in range(self.max_retries)\<close>, over
  the attempts still to run. \<open>last_error\<close> and \<open>r\<close> are the two local variables of the source; \<open>r\<close> is
  \<open>None\<close> while it is unbound. The empty list is the code after the loop.
\<close>

fun request_attempts ::
  "platform \<Rightarrow> transport \<Rightarrow> MoltbookAPI \<Rightarrow> string \<Rightarrow> request_url \<Rightarrow> nat list \<Rightarrow>
   string option \<Rightarrow> response option \<Rightarrow> world \<Rightarrow> (pyerr + response) \<times> world" where
  "request_attempts pf tr api method url [] last_error r w =
     (case last_error of
        Some e \<Rightarrow> (Inl (TimeoutException e), w)
      | None \<Rightarrow> (case r of None \<Rightarrow> (Inl UnboundLocalError, w) | Some resp \<Rightarrow> (Inr resp, w)))"
| "request_attempts pf tr api method url (attempt # rest) last_error r w =
     (let w1 = w\<lparr>calls := calls w + 1, trace := trace w @ [Requested method url]\<rparr> in
      case tr (calls w) method url of
        Response resp \<Rightarrow>
          if retryable (status_code resp) then
            (case backoff pf api attempt w1 of
               Inl e \<Rightarrow> (Inl e, w1)
             | Inr w2 \<Rightarrow> request_attempts pf tr api method url rest last_error (Some resp) w2)
          else (Inr resp, w1)
      | Timeout e \<Rightarrow>
          (case backoff pf api attempt w1 of
             Inl e' \<Rightarrow> (Inl e', w1)
           | Inr w2 \<Rightarrow> request_attempts pf tr api method url rest (Some e) r w2)
      | Failure e \<Rightarrow> (Inl (TransportError e), w1))"

definition request ::
  "platform \<Rightarrow> transport \<Rightarrow> MoltbookAPI \<Rightarrow> string \<Rightarrow> request_url \<Rightarrow> world \<Rightarrow>
   (pyerr + response) \<times> world" where
  "request pf tr api method url w =
     request_attempts pf tr api method url [0 ..< nat (max_retries api)] None None w"

subsection \<open>Reading a response\<close>

text \<open>Sequencing of computations that may raise: the first exception wins.\<close>

definition thenE :: "pyerr + 'a \<Rightarrow> ('a \<Rightarrow> pyerr + 'b) \<Rightarrow> pyerr + 'b" where
  "thenE m f = (case m of Inl e \<Rightarrow> Inl e | Inr x \<Rightarrow> f x)"

text \<open>\<^verbatim>\<open>r.raise_for_status()\<close> raises \<^verbatim>\<open>HTTPStatusError\<close> unless the status is 2xx.\<close>

definition raise_for_status :: "response \<Rightarrow> pyerr + unit" where
  "raise_for_status r =
     (if 200 \<le> status_code r \<and> status_code r \<le> 299 then Inr ()
      else Inl (HTTPStatusError (status_code r)))"

text \<open>\<^verbatim>\<open>r.json()\<close>: a body that is not JSON raises.\<close>

definition json :: "response \<Rightarrow> pyerr + pyval" where
  "json r = (case body r of None \<Rightarrow> Inl JSONDecodeError | Some data \<Rightarrow> Inr data)"

text \<open>The call \<^verbatim>\<open>Post(id=p["id"], ..., is_pinned=p.get("is_pinned", False))\<close>, its
  arguments evaluated from left to right.\<close>

definition make_post :: "pyval \<Rightarrow> pyerr + Post" where
  "make_post p =
     thenE (py_item p ''id'') (\<lambda>v_id.
     thenE (py_item p ''title'') (\<lambda>v_title.
     thenE (py_item p ''submolt'') (\<lambda>v_submolt.
     thenE (py_item p ''author'') (\<lambda>v_author.
     thenE (py_item p ''upvotes'') (\<lambda>v_upvotes.
     thenE (py_item p ''downvotes'') (\<lambda>v_downvotes.
     thenE (py_item p ''comment_count'') (\<lambda>v_comment_count.
     thenE (py_item p ''created_at'') (\<lambda>v_created_at.
     thenE (py_get p ''content'' PNone) (\<lambda>v_content.
     thenE (py_get p ''url'' PNone) (\<lambda>v_url.
     thenE (py_get p ''is_pinned'' (PBool False)) (\<lambda>v_is_pinned.
     Inr \<lparr>p_id = v_id, p_title = v_title, p_submolt = v_submolt, p_author = v_author,
          p_upvotes = v_upvotes, p_downvotes = v_downvotes,
          p_comment_count = v_comment_count, p_created_at = v_created_at,
          p_content = v_content, p_url = v_url, p_is_pinned = v_is_pinned\<rparr>)))))))))))"

text \<open>The loop \<^verbatim>\<open>for p in ...: posts.append(Post(...))\<close>.\<close>

fun make_posts :: "pyval list \<Rightarrow> pyerr + Post list" where
  "make_posts [] = Inr []"
| "make_posts (p # ps) =
     thenE (make_post p) (\<lambda>x. thenE (make_posts ps) (\<lambda>xs. Inr (x # xs)))"

text \<open>The call \<^verbatim>\<open>Comment(id=c["id"], ..., post_id=post_id, parent_id=c.get("parent_id"))\<close>.\<close>

definition make_comment :: "string \<Rightarrow> pyval \<Rightarrow> pyerr + Comment" where
  "make_comment post_id c =
     thenE (py_item c ''id'') (\<lambda>v_id.
     thenE (py_item c ''content'') (\<lambda>v_content.
     thenE (py_item c ''author'') (\<lambda>v_author.
     thenE (py_item c ''upvotes'') (\<lambda>v_upvotes.
     thenE (py_item c ''downvotes'') (\<lambda>v_downvotes.
     thenE (py_item c ''created_at'') (\<lambda>v_created_at.
     thenE (py_get c ''parent_id'' PNone) (\<lambda>v_parent_id.
     Inr \<lparr>c_id = v_id, c_content = v_content, c_author = v_author,
          c_upvotes = v_upvotes, c_downvotes = v_downvotes,
          c_created_at = v_created_at, c_post_id = post_id,
          c_parent_id = v_parent_id\<rparr>)))))))"

fun make_comments :: "string \<Rightarrow> pyval list \<Rightarrow> pyerr + Comment list" where
  "make_comments post_id [] = Inr []"
| "make_comments post_id (c # cs) =
     thenE (make_comment post_id c) (\<lambda>x.
     thenE (make_comments post_id cs) (\<lambda>xs. Inr (x # xs)))"

subsection \<open>\<^verbatim>\<open>get_posts\<close> and \<^verbatim>\<open>get_post_comments\<close>\<close>

text \<open>
  \<^verbatim>\<open>get_posts\<close> returns the dict \<^verbatim>\<open>{"posts": ..., "next_cursor": ...}\<close>, here the pair
  of the two values. \<open>before\<close> is \<open>PNone\<close> for \<^verbatim>\<open>None\<close>.
\<close>

definition posts_url :: "string \<Rightarrow> int \<Rightarrow> pyval \<Rightarrow> request_url" where
  "posts_url sort_order limit before =
     (let params = [(''sort'', PStr sort_order), (''limit'', PInt (min limit 100))]
                    @ (if truthy before then [(''before'', before)] else [])
      in Url ''/posts'' params)"

definition get_posts ::
  "platform \<Rightarrow> transport \<Rightarrow> MoltbookAPI \<Rightarrow> string \<Rightarrow> int \<Rightarrow> pyval \<Rightarrow> world \<Rightarrow>
   (pyerr + Post list \<times> pyval) \<times> world" where
  "get_posts pf tr api sort_order limit before w =
     (case request pf tr api ''GET'' (posts_url sort_order limit before) w of
        (Inl e, w1) \<Rightarrow> (Inl e, w1)
      | (Inr r, w1) \<Rightarrow>
          if status_code r = 401 \<and> no_api_key api then (Inr ([], PNone), w1)
          else
            (thenE (raise_for_status r) (\<lambda>_.
             thenE (json r) (\<lambda>data.
             thenE (py_get data ''posts'' (PList [])) (\<lambda>v.
             thenE (py_iter v) (\<lambda>items.
             thenE (make_posts items) (\<lambda>posts.
             thenE (py_get data ''next_cursor'' PNone) (\<lambda>next_cursor.
             Inr (posts, next_cursor))))))), w1))"

definition comments_url :: "string \<Rightarrow> string \<Rightarrow> request_url" where
  "comments_url post_id sort_order =
     Url (''/posts/'' @ post_id @ ''/comments'') [(''sort'', PStr sort_order)]"

definition get_post_comments ::
  "platform \<Rightarrow> transport \<Rightarrow> MoltbookAPI \<Rightarrow> string \<Rightarrow> string \<Rightarrow> world \<Rightarrow>
   (pyerr + Comment list) \<times> world" where
  "get_post_comments pf tr api post_id sort_order w =
     (case request pf tr api ''GET'' (comments_url post_id sort_order) w of
        (Inl e, w1) \<Rightarrow> (Inl e, w1)
      | (Inr r, w1) \<Rightarrow>
          if status_code r = 401 \<and> no_api_key api then (Inr [], w1)
          else
            (thenE (raise_for_status r) (\<lambda>_.
             thenE (json r) (\<lambda>data.
             thenE (py_get data ''comments'' (PList [])) (\<lambda>v.
             thenE (py_iter v) (\<lambda>items.
             make_comments post_id items)))), w1))"

subsection \<open>\<^verbatim>\<open>get_all_posts\<close>\<close>

text \<open>
  The test \<^verbatim>\<open>max_posts and len(all_posts) >= max_posts\<close>: \<^verbatim>\<open>None\<close> and \<open>0\<close> are
  falsy, every other integer is truthy.
\<close>

definition limit_reached :: "int option \<Rightarrow> 'a list \<Rightarrow> bool" where
  "limit_reached max_posts all_posts =
     (case max_posts of None \<Rightarrow> False | Some n \<Rightarrow> n \<noteq> 0 \<and> n \<le> int (length all_posts))"

text \<open>\<^verbatim>\<open>all_posts[:max_posts]\<close>, evaluated only where the test above succeeded.\<close>

definition truncate_posts :: "int option \<Rightarrow> 'a list \<Rightarrow> 'a list" where
  "truncate_posts max_posts all_posts =
     (case max_posts of None \<Rightarrow> all_posts | Some n \<Rightarrow> py_slice_to all_posts n)"

text \<open>
  The loop \<^verbatim>\<open>while True\<close>, one call for each iteration; it returns \<open>None\<close> when the
  source loops forever. \<open>cursor\<close> and \<open>all_posts\<close> are the variables of the source.
  \<open>pages\<close> is not one: it logs the value of \<open>posts\<close> at every iteration, so that
  theorems can speak of the pages fetched. The counter \<open>page\<close> of the source is only
  printed.
\<close>

partial_function (option) posts_loop ::
  "platform \<Rightarrow> transport \<Rightarrow> MoltbookAPI \<Rightarrow> string \<Rightarrow> int option \<Rightarrow> pyval \<Rightarrow> Post list \<Rightarrow>
   Post list list \<Rightarrow> world \<Rightarrow> ((pyerr + Post list) \<times> Post list list \<times> world) option" where
  "posts_loop pf tr api sort_order max_posts cursor all_posts pages w =
     (case get_posts pf tr api sort_order 100 cursor w of
        (Inl e, w1) \<Rightarrow> Some (Inl e, pages, w1)
      | (Inr (posts, next_cursor), w1) \<Rightarrow>
          if posts = [] then Some (Inr all_posts, pages @ [posts], w1)
          else if limit_reached max_posts (all_posts @ posts)
          then Some (Inr (truncate_posts max_posts (all_posts @ posts)), pages @ [posts], w1)
          else if \<not> truthy next_cursor
          then Some (Inr (all_posts @ posts), pages @ [posts], w1)
          else (case sleep pf (1 / 2) w1 of
                  Inl e \<Rightarrow> Some (Inl e, pages @ [posts], w1)
                | Inr w2 \<Rightarrow>
                    posts_loop pf tr api sort_order max_posts next_cursor (all_posts @ posts)
                      (pages @ [posts]) w2))"

declare posts_loop.simps [code]

definition get_all_posts ::
  "platform \<Rightarrow> transport \<Rightarrow> MoltbookAPI \<Rightarrow> string \<Rightarrow> int option \<Rightarrow> world \<Rightarrow>
   ((pyerr + Post list) \<times> world) option" where
  "get_all_posts pf tr api sort_order max_posts w =
     map_option (\<lambda>(res, pages, w'). (res, w'))
       (posts_loop pf tr api sort_order max_posts PNone [] [] w)"

subsection \<open>Vocabulary of the statements\<close>

text \<open>
  The outcomes that the transport holds for the attempts of one call of \<open>request\<close>,
  in order: attempt \<open>i\<close> is transport call number \<open>calls w + i\<close>.
\<close>

definition outcomes ::
  "transport \<Rightarrow> MoltbookAPI \<Rightarrow> string \<Rightarrow> request_url \<Rightarrow> world \<Rightarrow> outcome list" where
  "outcomes tr api method url w =
     map (\<lambda>i. tr (calls w + i) method url) [0 ..< nat (max_retries api)]"

text \<open>
  The backoff delays of one call of \<open>request\<close>, in order, as the floats the platform
  computes; a delay that \<^verbatim>\<open>time.sleep\<close> accepts; a computed delay that is finite and
  accepted.
\<close>

definition backoffs :: "platform \<Rightarrow> MoltbookAPI \<Rightarrow> real option list" where
  "backoffs pf api =
     map (\<lambda>i. float_times pf (retry_delay api) (i + 1)) [0 ..< nat (max_retries api)]"

definition sleepable :: "platform \<Rightarrow> real \<Rightarrow> bool" where
  "sleepable pf d = (0 \<le> d \<and> d \<le> sleep_limit pf)"

fun accepted :: "platform \<Rightarrow> real option \<Rightarrow> bool" where
  "accepted pf None = False"
| "accepted pf (Some d) = sleepable pf d"

text \<open>An outcome after which the loop of \<open>request\<close> goes on to the next attempt:
  a response with a status of the retry set, or a timeout.\<close>

fun goes_on :: "outcome \<Rightarrow> bool" where
  "goes_on (Response resp) = retryable (status_code resp)"
| "goes_on (Timeout e) = True"
| "goes_on (Failure e) = False"

text \<open>The timeout of the last attempt that timed out, if any did.\<close>

fun last_timeout :: "outcome list \<Rightarrow> string option" where
  "last_timeout [] = None"
| "last_timeout (out # outs) =
     (case last_timeout outs of
        Some e \<Rightarrow> Some e
      | None \<Rightarrow> (case out of Timeout e \<Rightarrow> Some e | _ \<Rightarrow> None))"

text \<open>
  The pages that successive calls of \<open>get_posts\<close> return, up to \<open>k\<close> of them, when
  the first call is given \<open>cursor\<close> and each later call, made after the inter-page
  sleep, the cursor of the page before: for every page its records, its cursor and the
  world right after the call. The list ends early where a call raises. Nothing here
  says what a collector keeps of the pages or where it stops.
\<close>

type_synonym page = "Post list \<times> pyval \<times> world"

definition page_posts :: "page \<Rightarrow> Post list" where
  "page_posts p = fst p"

definition page_cursor :: "page \<Rightarrow> pyval" where
  "page_cursor p = fst (snd p)"

definition page_world :: "page \<Rightarrow> world" where
  "page_world p = snd (snd p)"

fun pages_fetched ::
  "platform \<Rightarrow> transport \<Rightarrow> MoltbookAPI \<Rightarrow> string \<Rightarrow> nat \<Rightarrow> pyval \<Rightarrow> world \<Rightarrow> page list" where
  "pages_fetched pf tr api sort_order 0 cursor w = []"
| "pages_fetched pf tr api sort_order (Suc k) cursor w =
     (case get_posts pf tr api sort_order 100 cursor w of
        (Inl e, w1) \<Rightarrow> []
      | (Inr (posts, next_cursor), w1) \<Rightarrow>
          (posts, next_cursor, w1) #
          (case sleep pf (1 / 2) w1 of
             Inl e \<Rightarrow> []
           | Inr w2 \<Rightarrow> pages_fetched pf tr api sort_order k next_cursor w2))"

text \<open>A page after which a collector with no limit asks for the next page, and a page
  at which it stops.\<close>

definition goes_further :: "page \<Rightarrow> bool" where
  "goes_further p = (page_posts p \<noteq> [] \<and> truthy (page_cursor p))"

definition ends_feed :: "page \<Rightarrow> bool" where
  "ends_feed p = (page_posts p = [] \<or> \<not> truthy (page_cursor p))"

subsection \<open>Sample platform, clients and servers\<close>

text \<open>
  A platform whose delays are 64-bit counts of nanoseconds. Its float product is the
  exact product: on the delays of the samples below (small integers) the float product
  is exact.
\<close>

definition sample_platform :: platform where
  "sample_platform =
     \<lparr>float_times = (\<lambda>x k. Some (x * real k)), sleep_limit = 9223372036\<rparr>"


text \<open>A client with the default budget and delay and no key, one with an attempt
  budget of zero, clients with a delay of zero, a negative delay and a delay of
  \<open>10^10\<close> seconds, and the world before any call.\<close>

definition api_anon :: MoltbookAPI where
  "api_anon = \<lparr>api_key = None, max_retries = 3, retry_delay = 2\<rparr>"

definition api_no_budget :: MoltbookAPI where
  "api_no_budget = \<lparr>api_key = None, max_retries = 0, retry_delay = 2\<rparr>"

definition api_no_delay :: MoltbookAPI where
  "api_no_delay = \<lparr>api_key = None, max_retries = 3, retry_delay = 0\<rparr>"

definition api_negative_delay :: MoltbookAPI where
  "api_negative_delay = \<lparr>api_key = None, max_retries = 3, retry_delay = - 1\<rparr>"

definition api_long_delay :: MoltbookAPI where
  "api_long_delay = \<lparr>api_key = None, max_retries = 3, retry_delay = 10000000000\<rparr>"

definition world0 :: world where
  "world0 = \<lparr>calls = 0, trace = []\<rparr>"

text \<open>A server that always answers 503, one whose first answer times out and that
  answers 503 from then on, one that answers 503 between two timeouts, and one that
  refuses every request with 401.\<close>

definition busy_tr :: transport where
  "busy_tr n method url = Response \<lparr>status_code = 503, body = None\<rparr>"

definition flaky_tr :: transport where
  "flaky_tr n method url =
     (if n = 0 then Timeout ''read timeout''
      else Response \<lparr>status_code = 503, body = None\<rparr>)"

definition stalling_tr :: transport where
  "stalling_tr n method url =
     (if n = 0 then Timeout ''connect timeout''
      else if n = 1 then Response \<lparr>status_code = 503, body = None\<rparr>
      else Timeout ''read timeout'')"

definition denied_tr :: transport where
  "denied_tr n method url = Response \<lparr>status_code = 401, body = None\<rparr>"

text \<open>A post as the server sends it, and the \<^verbatim>\<open>Post\<close> built from it.\<close>

definition post_json :: "string \<Rightarrow> pyval" where
  "post_json i =
     PDict [(''id'', PStr i), (''title'', PStr ''hello''), (''submolt'', PDict []),
            (''author'', PDict []), (''upvotes'', PInt 1), (''downvotes'', PInt 0),
            (''comment_count'', PInt 0), (''created_at'', PStr ''2026-01-30'')]"

definition sample_post :: "string \<Rightarrow> Post" where
  "sample_post i =
     \<lparr>p_id = PStr i, p_title = PStr ''hello'', p_submolt = PDict [], p_author = PDict [],
      p_upvotes = PInt 1, p_downvotes = PInt 0, p_comment_count = PInt 0,
      p_created_at = PStr ''2026-01-30'', p_content = PNone, p_url = PNone,
      p_is_pinned = PBool False\<rparr>"

text \<open>
  A feed of three posts on two pages: the first page holds \<open>a\<close> and \<open>b\<close> and the
  cursor \<open>b\<close>, the page before \<open>b\<close> holds \<open>c\<close> and no cursor. Every other cursor
  gives an empty page that still carries a cursor.
\<close>

fun feed_tr :: transport where
  "feed_tr n method (Url path params) =
     (case map_of params ''before'' of
        None \<Rightarrow>
          Response \<lparr>status_code = 200,
            body = Some (PDict [(''posts'', PList [post_json ''a'', post_json ''b'']),
                                (''next_cursor'', PStr ''b'')])\<rparr>
      | Some c \<Rightarrow>
          if c = PStr ''b'' then
            Response \<lparr>status_code = 200,
              body = Some (PDict [(''posts'', PList [post_json ''c''])])\<rparr>
          else
            Response \<lparr>status_code = 200,
              body = Some (PDict [(''posts'', PList []), (''next_cursor'', PStr ''zzz'')])\<rparr>)"

text \<open>A feed of one page that holds one post and no cursor.\<close>

definition short_tr :: transport where
  "short_tr n method url =
     Response \<lparr>status_code = 200,
       body = Some (PDict [(''posts'', PList [post_json ''a''])])\<rparr>"

text \<open>A feed whose every page is empty and still carries a cursor.\<close>

definition drained_tr :: transport where
  "drained_tr n method url =
     Response \<lparr>status_code = 200,
       body = Some (PDict [(''posts'', PList []), (''next_cursor'', PStr ''zzz'')])\<rparr>"

text \<open>A server whose comments carry a \<^verbatim>\<open>post_id\<close> of their own.\<close>

definition comments_tr :: transport where
  "comments_tr n method url =
     Response \<lparr>status_code = 200,
       body = Some (PDict [(''comments'',
         PList [PDict [(''id'', PStr ''k1''), (''content'', PStr ''hi''),
                       (''author'', PDict []), (''upvotes'', PInt 2),
                       (''downvotes'', PInt 0), (''created_at'', PStr ''2026-01-30''),
                       (''post_id'', PStr ''elsewhere'')]])])\<rparr>"

section \<open>Properties of \<open>request\<close>\<close>

lemma sleep_Inr_iff:
  "sleep pf d w = Inr w' \<longleftrightarrow> sleepable pf d \<and> w' = w\<lparr>trace := trace w @ [Slept d]\<rparr>"
  by (auto simp: sleep_def sleepable_def)

lemma sleep_error:
  "sleep pf d w = Inl e \<Longrightarrow> e = OverflowError \<or> e = ValueError"
  by (auto simp: sleep_def split: if_splits)

lemma backoff_Inr_iff:
  "backoff pf api a w = Inr w' \<longleftrightarrow>
     (\<exists>d. float_times pf (retry_delay api) (a + 1) = Some d \<and> sleepable pf d \<and>
          w' = w\<lparr>trace := trace w @ [Slept d]\<rparr>)"
  by (auto simp: backoff_def sleep_Inr_iff split: option.splits)

lemma backoff_error:
  "backoff pf api a w = Inl e \<Longrightarrow> e = OverflowError \<or> e = ValueError"
  by (auto simp: backoff_def split: option.splits dest: sleep_error)

lemma backoff_accepted:
  "float_times pf (retry_delay api) (a + 1) = Some d \<Longrightarrow> sleepable pf d \<Longrightarrow>
   backoff pf api a w = Inr (w\<lparr>trace := trace w @ [Slept d]\<rparr>)"
  by (simp add: backoff_Inr_iff)

lemma backoff_rejected:
  "\<not> accepted pf (float_times pf (retry_delay api) (a + 1)) \<Longrightarrow>
   \<exists>e. backoff pf api a w = Inl e \<and> (e = OverflowError \<or> e = ValueError)"
  by (cases "backoff pf api a w") (auto simp: backoff_Inr_iff dest: backoff_error)

text \<open>
  While every attempt answers a status of the retry set and every backoff delay is
  accepted, the loop runs to its end: each attempt is one transport call followed by
  one sleep, and \<open>r\<close> ends bound to the response of the last attempt.
\<close>

lemma attempts_all_retryable:
  assumes "\<forall>a \<in> set as. float_times pf (retry_delay api) (a + 1) = Some (delay a) \<and>
             sleepable pf (delay a)"
    and "\<forall>i < length as. \<exists>resp. tr (calls w + i) m u = Response resp \<and>
             retryable (status_code resp)"
  shows "request_attempts pf tr api m u as le r w =
    request_attempts pf tr api m u [] le
      (if as = [] then r
       else (case tr (calls w + length as - 1) m u of
               Response resp \<Rightarrow> Some resp | _ \<Rightarrow> None))
      (w\<lparr>calls := calls w + length as,
         trace := trace w @ concat (map (\<lambda>a. [Requested m u, Slept (delay a)]) as)\<rparr>)"
  using assms
proof (induction as arbitrary: r w)
  case Nil
  then show ?case by simp
next
  case (Cons a as)
  from Cons.prems(2) obtain resp0 where
    r0: "tr (calls w) m u = Response resp0" "retryable (status_code resp0)"
    by fastforce
  let ?w1 = "w\<lparr>calls := calls w + 1, trace := trace w @ [Requested m u]\<rparr>"
  let ?w2 = "w\<lparr>calls := calls w + 1, trace := trace w @ [Requested m u, Slept (delay a)]\<rparr>"
  have "backoff pf api a ?w1 = Inr ?w2"
    using Cons.prems(1) by (simp add: backoff_Inr_iff)
  then have step: "request_attempts pf tr api m u (a # as) le r w =
      request_attempts pf tr api m u as le (Some resp0) ?w2"
    using r0 by (simp add: Let_def)
  have d: "\<forall>a \<in> set as. float_times pf (retry_delay api) (a + 1) = Some (delay a) \<and>
             sleepable pf (delay a)"
    using Cons.prems(1) by simp
  have "\<forall>i<length as. \<exists>resp. tr (calls ?w2 + i) m u = Response resp \<and>
          retryable (status_code resp)"
    using Cons.prems(2) by force
  from Cons.IH[OF d this, of "Some resp0"] step r0
  show ?case by (cases as) auto
qed

text \<open>
  Correctly rounded products of a positive delay and the first \<open>2^52\<close> positive
  integers are strictly increasing.
\<close>

lemma delays_increasing:
  fixes d :: real
  assumes "0 < d" and "n \<le> 2 ^ 52"
    and acc: "\<forall>i < n. \<bar>delay i - d * real (i + 1)\<bar> \<le> d * real (i + 1) / 2 ^ 53"
  shows "sorted_wrt (<) (map delay [0 ..< n])"
proof -
  define u :: real where "u = 1 / 2 ^ 53"
  have acc': "\<bar>delay i - d * real (i + 1)\<bar> \<le> d * real (i + 1) * u" if "i < n" for i
    using acc that by (simp add: u_def)
  have "delay i < delay j" if "i < j" and "j < n" for i j
  proof -
    from that have "i < n" by simp
    from acc'[OF this] have "delay i \<le> d * real (i + 1) + d * real (i + 1) * u"
      by linarith
    also have "\<dots> = d * (real (i + 1) * (1 + u))"
      by (simp add: algebra_simps)
    finally have up: "delay i \<le> d * (real (i + 1) * (1 + u))" .
    from acc'[OF that(2)] have "d * real (j + 1) - d * real (j + 1) * u \<le> delay j"
      by linarith
    moreover have "d * real (j + 1) - d * real (j + 1) * u = d * (real (j + 1) * (1 - u))"
      by (simp add: algebra_simps)
    ultimately have lo: "d * (real (j + 1) * (1 - u)) \<le> delay j" by simp
    have u1: "0 \<le> 1 - u" by (simp add: u_def)
    have "real (i + 2) \<le> real (j + 1)" using that(1) by simp
    then have le: "real (i + 2) * (1 - u) \<le> real (j + 1) * (1 - u)"
      using u1 by (rule mult_right_mono)
    have lt: "real (i + 1) * (1 + u) < real (i + 2) * (1 - u)"
    proof -
      from that assms(2) have "i + 2 \<le> 2 ^ 52" by simp
      then have "real (i + 2) \<le> real (2 ^ 52)" by (simp only: of_nat_le_iff)
      then have "2 * real i + 3 < 2 ^ 53" by simp
      then have "(2 * real i + 3) * u < 1" by (simp add: u_def)
      then show ?thesis by (simp add: algebra_simps)
    qed
    from lt le have "real (i + 1) * (1 + u) < real (j + 1) * (1 - u)" by simp
    with \<open>0 < d\<close> have "d * (real (i + 1) * (1 + u)) < d * (real (j + 1) * (1 - u))"
      by simp
    with up lo show ?thesis by simp
  qed
  then show ?thesis
    by (simp add: sorted_wrt_iff_nth_less)
qed

text \<open>
  C1, as the code has it. The budget is at least one attempt, every attempt of the
  budget answers a status of {429, 500, 502, 503, 504}, and every backoff delay, the
  float product \<open>delay i\<close> of \<open>retry_delay\<close> and \<open>i + 1\<close>, is one that
  \<^verbatim>\<open>time.sleep\<close> accepts. Then \<open>request\<close> makes \<open>max_retries\<close> transport calls, sleeps
  \<open>delay i\<close> after call \<open>i\<close> (so before each retry) and returns the response of the
  final attempt unchanged. The delays are strictly increasing when \<open>retry_delay\<close> is
  positive, the budget is at most \<open>2^52\<close> and the float products are correctly rounded
  (relative error at most \<open>2^-53\<close>).
\<close>

theorem request_retryable_exhausts:
  assumes "1 \<le> max_retries api"
    and "\<forall>i < nat (max_retries api). \<exists>resp.
           tr (calls w + i) method url = Response resp \<and> retryable (status_code resp)"
    and "\<forall>i < nat (max_retries api).
           float_times pf (retry_delay api) (i + 1) = Some (delay i) \<and> sleepable pf (delay i)"
  shows "\<exists>resp. tr (calls w + nat (max_retries api) - 1) method url = Response resp \<and>
     request pf tr api method url w =
       (Inr resp,
        w\<lparr>calls := calls w + nat (max_retries api),
          trace := trace w @ concat (map (\<lambda>i. [Requested method url, Slept (delay i)])
                      [0 ..< nat (max_retries api)])\<rparr>) \<and>
     (0 < retry_delay api \<and> nat (max_retries api) \<le> 2 ^ 52 \<and>
      (\<forall>i < nat (max_retries api).
         \<bar>delay i - retry_delay api * real (i + 1)\<bar> \<le> retry_delay api * real (i + 1) / 2 ^ 53)
      \<longrightarrow> sorted_wrt (<) (map delay [0 ..< nat (max_retries api)]))"
proof -
  let ?n = "nat (max_retries api)"
  have n: "0 < ?n" using assms(1) by simp
  then obtain resp where resp: "tr (calls w + ?n - 1) method url = Response resp"
    using assms(2) by (metis Nat.add_diff_assoc Suc_leI diff_less zero_less_one One_nat_def)
  have a: "\<forall>a \<in> set [0 ..< ?n].
      float_times pf (retry_delay api) (a + 1) = Some (delay a) \<and> sleepable pf (delay a)"
    using assms(3) by simp
  have b: "\<forall>i < length [0 ..< ?n]. \<exists>resp.
      tr (calls w + i) method url = Response resp \<and> retryable (status_code resp)"
    using assms(2) by simp
  from attempts_all_retryable[where as = "[0 ..< ?n]" and le = None and r = None
      and tr = tr and w = w and m = "method" and u = "url" and api = api and pf = pf
      and delay = delay, OF a b]
    n resp
  have "request pf tr api method url w =
       (Inr resp,
        w\<lparr>calls := calls w + ?n,
          trace := trace w @ concat (map (\<lambda>i. [Requested method url, Slept (delay i)])
                      [0 ..< ?n])\<rparr>)"
    by (simp add: request_def)
  with resp delays_increasing[of "retry_delay api" ?n delay] show ?thesis by blast
qed

theorem request_retryable_exhausts_witness:
  "1 \<le> max_retries api_anon \<and> 0 < retry_delay api_anon \<and>
   request sample_platform busy_tr api_anon ''GET'' (posts_url ''new'' 100 PNone) world0 =
     (Inr \<lparr>status_code = 503, body = None\<rparr>,
      \<lparr>calls = 3,
       trace = [Requested ''GET'' (posts_url ''new'' 100 PNone), Slept 2,
                Requested ''GET'' (posts_url ''new'' 100 PNone), Slept 4,
                Requested ''GET'' (posts_url ''new'' 100 PNone), Slept 6]\<rparr>) \<and>
   sorted_wrt (<) [2, 4, 6 :: real]"
proof -
  have h1: "1 \<le> max_retries api_anon" and pos: "0 < retry_delay api_anon"
    by (simp_all add: api_anon_def)
  have h2: "\<forall>i < nat (max_retries api_anon). \<exists>resp.
      busy_tr (calls world0 + i) ''GET'' (posts_url ''new'' 100 PNone) = Response resp \<and>
      retryable (status_code resp)"
    by (simp add: busy_tr_def retryable_def)
  have h3: "\<forall>i < nat (max_retries api_anon).
      float_times sample_platform (retry_delay api_anon) (i + 1) = Some (2 * real (i + 1)) \<and>
      sleepable sample_platform (2 * real (i + 1))"
    by (auto simp: sample_platform_def api_anon_def sleepable_def)
  have h4: "nat (max_retries api_anon) \<le> 2 ^ 52"
    by (simp add: api_anon_def)
  have h5: "\<forall>i < nat (max_retries api_anon).
      \<bar>2 * real (i + 1) - retry_delay api_anon * real (i + 1)\<bar>
        \<le> retry_delay api_anon * real (i + 1) / 2 ^ 53"
    by (simp add: api_anon_def)
  from request_retryable_exhausts[of api_anon busy_tr world0 "''GET''"
      "posts_url ''new'' 100 PNone" sample_platform "\<lambda>i. 2 * real (i + 1)", OF h1 h2 h3]
    h1 pos h4 h5
  show ?thesis
    by (simp add: api_anon_def world0_def busy_tr_def upt_rec)
qed

text \<open>
  The claim as written fails for a delay of zero: every attempt answers 503, the three
  sleeps are of length 0, 0 and 0, and these are not strictly increasing. It also fails
  for a negative delay and for a delay beyond the range of \<^verbatim>\<open>time.sleep\<close>: the first
  sleep raises, after one attempt, and no response is returned.
\<close>

theorem request_retryable_exhausts_counterexample:
  "busy_tr 0 ''GET'' (posts_url ''new'' 100 PNone) =
     Response \<lparr>status_code = 503, body = None\<rparr> \<and>
   busy_tr 1 ''GET'' (posts_url ''new'' 100 PNone) =
     Response \<lparr>status_code = 503, body = None\<rparr> \<and>
   busy_tr 2 ''GET'' (posts_url ''new'' 100 PNone) =
     Response \<lparr>status_code = 503, body = None\<rparr> \<and>
   request sample_platform busy_tr api_no_delay ''GET'' (posts_url ''new'' 100 PNone) world0 =
     (Inr \<lparr>status_code = 503, body = None\<rparr>,
      \<lparr>calls = 3,
       trace = [Requested ''GET'' (posts_url ''new'' 100 PNone), Slept 0,
                Requested ''GET'' (posts_url ''new'' 100 PNone), Slept 0,
                Requested ''GET'' (posts_url ''new'' 100 PNone), Slept 0]\<rparr>) \<and>
   \<not> sorted_wrt (<) [0, 0, 0 :: real] \<and>
   request sample_platform busy_tr api_negative_delay ''GET'' (posts_url ''new'' 100 PNone)
       world0 =
     (Inl ValueError,
      \<lparr>calls = 1, trace = [Requested ''GET'' (posts_url ''new'' 100 PNone)]\<rparr>) \<and>
   request sample_platform busy_tr api_long_delay ''GET'' (posts_url ''new'' 100 PNone)
       world0 =
     (Inl OverflowError,
      \<lparr>calls = 1, trace = [Requested ''GET'' (posts_url ''new'' 100 PNone)]\<rparr>)"
  by (simp add: request_def api_no_delay_def api_negative_delay_def api_long_delay_def
      world0_def busy_tr_def upt_rec retryable_def backoff_def sleep_def sample_platform_def)

text \<open>
  A timeout leaves \<open>request\<close> exactly when every attempt of the budget made the loop go
  on, every backoff delay was accepted, and some attempt timed out; it is the timeout
  captured last.
\<close>

lemma attempts_timeout_iff:
  "fst (request_attempts pf tr api m u as le r w) = Inl (TimeoutException e) \<longleftrightarrow>
     (\<forall>i < length as. goes_on (tr (calls w + i) m u)) \<and>
     (\<forall>a \<in> set as. accepted pf (float_times pf (retry_delay api) (a + 1))) \<and>
     (case last_timeout (map (\<lambda>i. tr (calls w + i) m u) [0 ..< length as]) of
        Some e' \<Rightarrow> e' = e | None \<Rightarrow> le = Some e)"
proof (induction as arbitrary: le r w)
  case Nil
  then show ?case by (simp split: option.split)
next
  case (Cons a as)
  let ?w1 = "w\<lparr>calls := calls w + 1, trace := trace w @ [Requested m u]\<rparr>"
  show ?case
  proof (cases "accepted pf (float_times pf (retry_delay api) (a + 1))")
    case False
    from backoff_rejected[OF False, of ?w1] obtain e' where
      e': "backoff pf api a ?w1 = Inl e'" "e' = OverflowError \<or> e' = ValueError"
      by blast
    have "fst (request_attempts pf tr api m u (a # as) le r w) \<noteq> Inl (TimeoutException e)"
      using e' by (cases "tr (calls w) m u") (auto simp: Let_def)
    with False show ?thesis by simp
  next
    case True
    then obtain d where d: "float_times pf (retry_delay api) (a + 1) = Some d" "sleepable pf d"
      by (cases "float_times pf (retry_delay api) (a + 1)") auto
    let ?w2 = "?w1\<lparr>trace := trace ?w1 @ [Slept d]\<rparr>"
    have bo: "backoff pf api a ?w1 = Inr ?w2"
      by (rule backoff_accepted[OF d])
    have shift: "map (\<lambda>i. tr (calls w + i) m u) [0 ..< length (a # as)] =
        tr (calls w) m u # map (\<lambda>i. tr (calls ?w2 + i) m u) [0 ..< length as]"
      by (simp add: upt_rec[of 0] map_Suc_upt[symmetric] del: upt_Suc)
    have all: "(\<forall>i < length (a # as). goes_on (tr (calls w + i) m u)) \<longleftrightarrow>
        goes_on (tr (calls w) m u) \<and> (\<forall>i < length as. goes_on (tr (calls ?w2 + i) m u))"
      by (auto simp: less_Suc_eq_0_disj)
    have acc: "(\<forall>x \<in> set (a # as). accepted pf (float_times pf (retry_delay api) (x + 1))) \<longleftrightarrow>
        (\<forall>x \<in> set as. accepted pf (float_times pf (retry_delay api) (x + 1)))"
      using True by simp
    show ?thesis
    proof (cases "tr (calls w) m u")
      case (Response resp)
      show ?thesis
      proof (cases "retryable (status_code resp)")
        case True
        have "request_attempts pf tr api m u (a # as) le r w =
            request_attempts pf tr api m u as le (Some resp) ?w2"
          using Response True bo by (simp add: Let_def)
        then show ?thesis
          unfolding shift all acc using Cons.IH[of le "Some resp" ?w2] Response True
          by (simp split: option.split)
      next
        case False
        then show ?thesis unfolding all using Response by (simp add: Let_def)
      qed
    next
      case (Timeout e0)
      have "request_attempts pf tr api m u (a # as) le r w =
          request_attempts pf tr api m u as (Some e0) r ?w2"
        using Timeout bo by (simp add: Let_def)
      then show ?thesis
        unfolding shift all acc using Cons.IH[of "Some e0" r ?w2] Timeout
        by (simp split: option.split)
    next
      case (Failure e0)
      then show ?thesis unfolding all by (simp add: Let_def)
    qed
  qed
qed

text \<open>
  C2, as the code has it. \<open>request\<close> raises a transport timeout exactly when the
  attempt budget runs out (every attempt timed out or answered a status of the retry
  set, and \<^verbatim>\<open>time.sleep\<close> accepted every backoff delay) and at least one attempt
  timed out; the timeout raised is the one captured last. A retryable response after a
  timeout does not clear the captured timeout.
\<close>

theorem request_timeout_iff:
  "fst (request pf tr api method url w) = Inl (TimeoutException e) \<longleftrightarrow>
     list_all goes_on (outcomes tr api method url w) \<and>
     list_all (accepted pf) (backoffs pf api) \<and>
     last_timeout (outcomes tr api method url w) = Some e"
  using attempts_timeout_iff[of pf tr api "method" "url" "[0 ..< nat (max_retries api)]"
      None None w e]
  by (auto simp: request_def outcomes_def backoffs_def list_all_iff split: option.splits)

theorem request_timeout_iff_witness:
  "outcomes stalling_tr api_anon ''GET'' (posts_url ''new'' 100 PNone) world0 =
     [Timeout ''connect timeout'', Response \<lparr>status_code = 503, body = None\<rparr>,
      Timeout ''read timeout''] \<and>
   backoffs sample_platform api_anon = [Some 2, Some 4, Some 6] \<and>
   fst (request sample_platform stalling_tr api_anon ''GET'' (posts_url ''new'' 100 PNone)
          world0) =
     Inl (TimeoutException ''read timeout'')"
proof -
  have outs: "outcomes stalling_tr api_anon ''GET'' (posts_url ''new'' 100 PNone) world0 =
     [Timeout ''connect timeout'', Response \<lparr>status_code = 503, body = None\<rparr>,
      Timeout ''read timeout'']"
    by (simp add: outcomes_def api_anon_def world0_def stalling_tr_def upt_rec)
  have bs: "backoffs sample_platform api_anon = [Some 2, Some 4, Some 6]"
    by (simp add: backoffs_def api_anon_def sample_platform_def upt_rec)
  from request_timeout_iff[of sample_platform stalling_tr api_anon "''GET''"
      "posts_url ''new'' 100 PNone" world0 "''read timeout''"] outs bs
  show ?thesis by (simp add: retryable_def sleepable_def sample_platform_def)
qed

text \<open>
  The claim as written fails: the first attempt times out, the two later attempts answer
  503, the budget of three is exhausted, and the timeout is raised, not the last
  response.
\<close>

theorem request_timeout_counterexample:
  "max_retries api_anon = 3 \<and>
   flaky_tr 0 ''GET'' (posts_url ''new'' 100 PNone) = Timeout ''read timeout'' \<and>
   flaky_tr 1 ''GET'' (posts_url ''new'' 100 PNone) =
     Response \<lparr>status_code = 503, body = None\<rparr> \<and>
   flaky_tr 2 ''GET'' (posts_url ''new'' 100 PNone) =
     Response \<lparr>status_code = 503, body = None\<rparr> \<and>
   fst (request sample_platform flaky_tr api_anon ''GET'' (posts_url ''new'' 100 PNone)
          world0) =
     Inl (TimeoutException ''read timeout'')"
  by (simp add: request_def api_anon_def world0_def flaky_tr_def upt_rec retryable_def
      backoff_def sleep_def sample_platform_def)

text \<open>
  The variable \<open>r\<close> is never read unbound once the loop has run an attempt, and a
  response that \<open>request\<close> returns is the response of the last transport call it made.
\<close>

lemma attempts_not_unbound:
  "as \<noteq> [] \<or> r \<noteq> None \<or> le \<noteq> None \<Longrightarrow>
   fst (request_attempts pf tr api m u as le r w) \<noteq> Inl UnboundLocalError"
proof (induction as arbitrary: le r w)
  case Nil
  then show ?case by (auto split: option.splits)
next
  case (Cons a as)
  show ?case
    by (cases "tr (calls w) m u")
       (auto simp: Let_def Cons.IH split: sum.splits if_splits dest: backoff_error)
qed

lemma attempts_returns_last:
  "request_attempts pf tr api m u as le r w = (Inr resp, w') \<Longrightarrow>
   calls w \<le> calls w' \<and>
   (if calls w' = calls w then r = Some resp \<and> le = None
    else tr (calls w' - 1) m u = Response resp)"
proof (induction as arbitrary: le r w)
  case Nil
  then show ?case by (auto split: option.splits)
next
  case (Cons a as)
  let ?w1 = "w\<lparr>calls := calls w + 1, trace := trace w @ [Requested m u]\<rparr>"
  show ?case
  proof (cases "tr (calls w) m u")
    case (Response resp0)
    show ?thesis
    proof (cases "retryable (status_code resp0)")
      case True
      with Cons.prems Response obtain w2 where
        bo: "backoff pf api a ?w1 = Inr w2"
        and run: "request_attempts pf tr api m u as le (Some resp0) w2 = (Inr resp, w')"
        by (auto simp: Let_def split: sum.splits)
      from bo have "calls w2 = calls w + 1" by (auto simp: backoff_Inr_iff)
      with Cons.IH[OF run] Response show ?thesis by (auto split: if_splits)
    next
      case False
      with Cons.prems Response show ?thesis by (auto simp: Let_def)
    qed
  next
    case (Timeout e0)
    with Cons.prems obtain w2 where
      bo: "backoff pf api a ?w1 = Inr w2"
      and run: "request_attempts pf tr api m u as (Some e0) r w2 = (Inr resp, w')"
      by (auto simp: Let_def split: sum.splits)
    from bo have "calls w2 = calls w + 1" by (auto simp: backoff_Inr_iff)
    with Cons.IH[OF run] show ?thesis by (auto split: if_splits)
  next
    case (Failure e0)
    with Cons.prems show ?thesis by (simp add: Let_def)
  qed
qed

text \<open>
  C8. With a budget of at least one attempt \<open>request\<close> never raises
  \<^verbatim>\<open>UnboundLocalError\<close>, and whenever it returns a response (the fallback return after
  the loop included) that response is the one of the last attempt made. With a budget of
  zero the fallback reads the unbound \<open>r\<close>: the call raises and makes no request.
\<close>

theorem request_fallback_bound:
  "(1 \<le> max_retries api \<longrightarrow>
      fst (request pf tr api method url w) \<noteq> Inl UnboundLocalError \<and>
      (\<forall>resp w'. request pf tr api method url w = (Inr resp, w') \<longrightarrow>
         calls w < calls w' \<and> tr (calls w' - 1) method url = Response resp)) \<and>
   (max_retries api \<le> 0 \<longrightarrow>
      request pf tr api method url w = (Inl UnboundLocalError, w))"
proof (intro conjI impI allI)
  assume "1 \<le> max_retries api"
  then have ne: "[0 ..< nat (max_retries api)] \<noteq> []" by simp
  then show "fst (request pf tr api method url w) \<noteq> Inl UnboundLocalError"
    unfolding request_def by (intro attempts_not_unbound) simp
  fix resp w'
  assume "request pf tr api method url w = (Inr resp, w')"
  then have run: "request_attempts pf tr api method url [0 ..< nat (max_retries api)]
      None None w = (Inr resp, w')"
    by (simp add: request_def)
  from attempts_returns_last[OF run]
  show "calls w < calls w'" and "tr (calls w' - 1) method url = Response resp"
    by (auto split: if_splits)
next
  assume "max_retries api \<le> 0"
  then show "request pf tr api method url w = (Inl UnboundLocalError, w)"
    by (simp add: request_def)
qed

theorem request_fallback_bound_witness:
  "1 \<le> max_retries api_anon \<and>
   fst (request sample_platform busy_tr api_anon ''GET'' (posts_url ''new'' 100 PNone) world0)
     \<noteq> Inl UnboundLocalError \<and>
   fst (request sample_platform busy_tr api_anon ''GET'' (posts_url ''new'' 100 PNone) world0)
     = Inr \<lparr>status_code = 503, body = None\<rparr> \<and>
   busy_tr 2 ''GET'' (posts_url ''new'' 100 PNone) =
     Response \<lparr>status_code = 503, body = None\<rparr> \<and>
   max_retries api_no_budget \<le> 0 \<and>
   request sample_platform busy_tr api_no_budget ''GET'' (posts_url ''new'' 100 PNone) world0 =
     (Inl UnboundLocalError, world0)"
proof -
  have h1: "1 \<le> max_retries api_anon" and h0: "max_retries api_no_budget \<le> 0"
    by (simp_all add: api_anon_def api_no_budget_def)
  obtain resp w' where run:
    "request sample_platform busy_tr api_anon ''GET'' (posts_url ''new'' 100 PNone) world0 =
       (Inr resp, w')"
    and w': "calls w' = 3"
    by (simp add: request_def api_anon_def world0_def busy_tr_def upt_rec retryable_def
        backoff_def sleep_def sample_platform_def)
  from request_fallback_bound[of api_anon sample_platform busy_tr "''GET''"
      "posts_url ''new'' 100 PNone" world0] h1 run w'
  have a: "fst (request sample_platform busy_tr api_anon ''GET''
              (posts_url ''new'' 100 PNone) world0) \<noteq> Inl UnboundLocalError"
    and b: "busy_tr 2 ''GET'' (posts_url ''new'' 100 PNone) = Response resp"
    by simp_all
  from request_fallback_bound[of api_no_budget sample_platform busy_tr "''GET''"
      "posts_url ''new'' 100 PNone" world0] h0
  have c: "request sample_platform busy_tr api_no_budget ''GET''
              (posts_url ''new'' 100 PNone) world0 = (Inl UnboundLocalError, world0)"
    by simp
  from a b c h1 h0 run show ?thesis by (simp add: busy_tr_def)
qed

section \<open>Properties of \<open>get_posts\<close> and of the pagination loop\<close>

text \<open>One iteration of the loop, for each way it can go.\<close>

lemma loop_error:
  "get_posts pf tr api so 100 cursor w = (Inl e, w1) \<Longrightarrow>
   posts_loop pf tr api so mp cursor all_posts pages w = Some (Inl e, pages, w1)"
  by (subst posts_loop.simps) simp

lemma loop_empty:
  "get_posts pf tr api so 100 cursor w = (Inr ([], c), w1) \<Longrightarrow>
   posts_loop pf tr api so mp cursor all_posts pages w =
     Some (Inr all_posts, pages @ [[]], w1)"
  by (subst posts_loop.simps) simp

lemma loop_limit:
  "get_posts pf tr api so 100 cursor w = (Inr (posts, c), w1) \<Longrightarrow> posts \<noteq> [] \<Longrightarrow>
   limit_reached mp (all_posts @ posts) \<Longrightarrow>
   posts_loop pf tr api so mp cursor all_posts pages w =
     Some (Inr (truncate_posts mp (all_posts @ posts)), pages @ [posts], w1)"
  by (subst posts_loop.simps) simp

lemma loop_no_cursor:
  "get_posts pf tr api so 100 cursor w = (Inr (posts, c), w1) \<Longrightarrow> posts \<noteq> [] \<Longrightarrow>
   \<not> limit_reached mp (all_posts @ posts) \<Longrightarrow> \<not> truthy c \<Longrightarrow>
   posts_loop pf tr api so mp cursor all_posts pages w =
     Some (Inr (all_posts @ posts), pages @ [posts], w1)"
  by (subst posts_loop.simps) simp

lemma loop_sleep_error:
  "get_posts pf tr api so 100 cursor w = (Inr (posts, c), w1) \<Longrightarrow> posts \<noteq> [] \<Longrightarrow>
   \<not> limit_reached mp (all_posts @ posts) \<Longrightarrow> truthy c \<Longrightarrow>
   sleep pf (1 / 2) w1 = Inl e \<Longrightarrow>
   posts_loop pf tr api so mp cursor all_posts pages w = Some (Inl e, pages @ [posts], w1)"
  by (subst posts_loop.simps) simp

lemma loop_continue:
  "get_posts pf tr api so 100 cursor w = (Inr (posts, c), w1) \<Longrightarrow> posts \<noteq> [] \<Longrightarrow>
   \<not> limit_reached mp (all_posts @ posts) \<Longrightarrow> truthy c \<Longrightarrow>
   sleep pf (1 / 2) w1 = Inr w2 \<Longrightarrow>
   posts_loop pf tr api so mp cursor all_posts pages w =
     posts_loop pf tr api so mp c (all_posts @ posts) (pages @ [posts]) w2"
  by (subst posts_loop.simps) simp

lemma loop_cases:
  obtains (error) e w1 where "get_posts pf tr api so 100 cursor w = (Inl e, w1)"
  | (empty) c w1 where "get_posts pf tr api so 100 cursor w = (Inr ([], c), w1)"
  | (limit) posts c w1 where "get_posts pf tr api so 100 cursor w = (Inr (posts, c), w1)"
      "posts \<noteq> []" "limit_reached mp (all_posts @ posts)"
  | (no_cursor) posts c w1 where "get_posts pf tr api so 100 cursor w = (Inr (posts, c), w1)"
      "posts \<noteq> []" "\<not> limit_reached mp (all_posts @ posts)" "\<not> truthy c"
  | (sleep_error) posts c w1 e where
      "get_posts pf tr api so 100 cursor w = (Inr (posts, c), w1)"
      "posts \<noteq> []" "\<not> limit_reached mp (all_posts @ posts)" "truthy c"
      "sleep pf (1 / 2) w1 = Inl e"
  | (continue) posts c w1 w2 where
      "get_posts pf tr api so 100 cursor w = (Inr (posts, c), w1)"
      "posts \<noteq> []" "\<not> limit_reached mp (all_posts @ posts)" "truthy c"
      "sleep pf (1 / 2) w1 = Inr w2"
proof (cases "get_posts pf tr api so 100 cursor w")
  case (Pair res w1)
  show ?thesis
  proof (cases res)
    case (Inl e)
    with Pair error show ?thesis by simp
  next
    case (Inr pc)
    obtain posts c where pc: "pc = (posts, c)" by (cases pc)
    with Pair Inr have g: "get_posts pf tr api so 100 cursor w = (Inr (posts, c), w1)"
      by simp
    show ?thesis
    proof (cases "posts \<noteq> [] \<and> \<not> limit_reached mp (all_posts @ posts) \<and> truthy c")
      case False
      with g empty limit no_cursor show ?thesis by blast
    next
      case True
      with g sleep_error continue show ?thesis
        by (cases "sleep pf (1 / 2) w1") blast+
    qed
  qed
qed

text \<open>
  Induction over a run of the loop that returns: the five ways to leave it, and the
  step to the next iteration.
\<close>

lemma posts_loop_induct
  [consumes 1, case_names error empty limit no_cursor sleep_error continue]:
  assumes run: "posts_loop pf tr api so mp cursor all_posts pages w = Some y"
    and error: "\<And>cursor all_posts pages w e w1.
      get_posts pf tr api so 100 cursor w = (Inl e, w1) \<Longrightarrow>
      P cursor all_posts pages w (Inl e, pages, w1)"
    and empty: "\<And>cursor all_posts pages w c w1.
      get_posts pf tr api so 100 cursor w = (Inr ([], c), w1) \<Longrightarrow>
      P cursor all_posts pages w (Inr all_posts, pages @ [[]], w1)"
    and limit: "\<And>cursor all_posts pages w posts c w1.
      get_posts pf tr api so 100 cursor w = (Inr (posts, c), w1) \<Longrightarrow> posts \<noteq> [] \<Longrightarrow>
      limit_reached mp (all_posts @ posts) \<Longrightarrow>
      P cursor all_posts pages w
        (Inr (truncate_posts mp (all_posts @ posts)), pages @ [posts], w1)"
    and no_cursor: "\<And>cursor all_posts pages w posts c w1.
      get_posts pf tr api so 100 cursor w = (Inr (posts, c), w1) \<Longrightarrow> posts \<noteq> [] \<Longrightarrow>
      \<not> limit_reached mp (all_posts @ posts) \<Longrightarrow> \<not> truthy c \<Longrightarrow>
      P cursor all_posts pages w (Inr (all_posts @ posts), pages @ [posts], w1)"
    and sleep_error: "\<And>cursor all_posts pages w posts c w1 e.
      get_posts pf tr api so 100 cursor w = (Inr (posts, c), w1) \<Longrightarrow> posts \<noteq> [] \<Longrightarrow>
      \<not> limit_reached mp (all_posts @ posts) \<Longrightarrow> truthy c \<Longrightarrow>
      sleep pf (1 / 2) w1 = Inl e \<Longrightarrow>
      P cursor all_posts pages w (Inl e, pages @ [posts], w1)"
    and continue: "\<And>cursor all_posts pages w posts c w1 w2 y.
      get_posts pf tr api so 100 cursor w = (Inr (posts, c), w1) \<Longrightarrow> posts \<noteq> [] \<Longrightarrow>
      \<not> limit_reached mp (all_posts @ posts) \<Longrightarrow> truthy c \<Longrightarrow>
      sleep pf (1 / 2) w1 = Inr w2 \<Longrightarrow>
      posts_loop pf tr api so mp c (all_posts @ posts) (pages @ [posts]) w2 = Some y \<Longrightarrow>
      P c (all_posts @ posts) (pages @ [posts]) w2 y \<Longrightarrow>
      P cursor all_posts pages w y"
  shows "P cursor all_posts pages w y"
proof -
  let ?Q = "\<lambda>pf' tr' api' so' mp' cursor all_posts pages w y.
     pf' = pf \<and> tr' = tr \<and> api' = api \<and> so' = so \<and> mp' = mp \<longrightarrow>
     posts_loop pf tr api so mp cursor all_posts pages w = Some y \<and>
     P cursor all_posts pages w y"
  have "?Q pf tr api so mp cursor all_posts pages w y"
  proof (rule posts_loop.raw_induct[where P = ?Q, OF _ run])
    fix loop pf' tr' api' so' mp' cursor all_posts pages w y
    assume IH: "\<And>pf' tr' api' so' mp' cursor all_posts pages w y.
        loop pf' tr' api' so' mp' cursor all_posts pages w = Some y \<Longrightarrow>
        ?Q pf' tr' api' so' mp' cursor all_posts pages w y"
      and body: "(case get_posts pf' tr' api' so' 100 cursor w of
          (Inl e, w1) \<Rightarrow> Some (Inl e, pages, w1)
        | (Inr (posts, next_cursor), w1) \<Rightarrow>
            if posts = [] then Some (Inr all_posts, pages @ [posts], w1)
            else if limit_reached mp' (all_posts @ posts)
            then Some (Inr (truncate_posts mp' (all_posts @ posts)), pages @ [posts], w1)
            else if \<not> truthy next_cursor
            then Some (Inr (all_posts @ posts), pages @ [posts], w1)
            else (case sleep pf' (1 / 2) w1 of
                    Inl e \<Rightarrow> Some (Inl e, pages @ [posts], w1)
                  | Inr w2 \<Rightarrow>
                      loop pf' tr' api' so' mp' next_cursor (all_posts @ posts)
                        (pages @ [posts]) w2)) = Some y"
    show "?Q pf' tr' api' so' mp' cursor all_posts pages w y"
    proof (intro impI)
      assume eqs: "pf' = pf \<and> tr' = tr \<and> api' = api \<and> so' = so \<and> mp' = mp"
      show "posts_loop pf tr api so mp cursor all_posts pages w = Some y \<and>
          P cursor all_posts pages w y"
      proof (cases rule: loop_cases[where pf = pf and tr = tr and api = api and so = so
            and cursor = cursor and w = w and mp = mp and all_posts = all_posts])
        case (error e w1)
        with body eqs have "y = (Inl e, pages, w1)" by simp
        with error show ?thesis using loop_error assms(2) by simp
      next
        case (empty c w1)
        with body eqs have "y = (Inr all_posts, pages @ [[]], w1)" by simp
        with empty show ?thesis using loop_empty assms(3) by simp
      next
        case (limit posts c w1)
        with body eqs
        have "y = (Inr (truncate_posts mp (all_posts @ posts)), pages @ [posts], w1)"
          by simp
        with limit show ?thesis using loop_limit assms(4) by simp
      next
        case (no_cursor posts c w1)
        with body eqs have "y = (Inr (all_posts @ posts), pages @ [posts], w1)" by simp
        with no_cursor show ?thesis using loop_no_cursor assms(5) by simp
      next
        case (sleep_error posts c w1 e)
        with body eqs have "y = (Inl e, pages @ [posts], w1)" by simp
        with sleep_error show ?thesis using loop_sleep_error assms(6) by simp
      next
        case (continue posts c w1 w2)
        with body eqs
        have "loop pf tr api so mp c (all_posts @ posts) (pages @ [posts]) w2 = Some y"
          by simp
        from IH[OF this]
        have rec: "posts_loop pf tr api so mp c (all_posts @ posts) (pages @ [posts]) w2 =
            Some y"
          and P: "P c (all_posts @ posts) (pages @ [posts]) w2 y"
          by simp_all
        from assms(7)[OF continue rec P] rec loop_continue[OF continue]
        show ?thesis by simp
      qed
    qed
  qed
  then show ?thesis by simp
qed

subsection \<open>Runs of the sample servers\<close>

lemma sample_sleep_half:
  "sleep sample_platform (1 / 2) w = Inr (w\<lparr>trace := trace w @ [Slept (1 / 2)]\<rparr>)"
  by (simp add: sleep_def sample_platform_def)

lemma make_post_sample: "make_post (post_json i) = Inr (sample_post i)"
  by (simp add: make_post_def post_json_def sample_post_def thenE_def)

lemma feed_page1:
  "get_posts pf feed_tr api_anon so 100 PNone w =
     (Inr ([sample_post ''a'', sample_post ''b''], PStr ''b''),
      w\<lparr>calls := calls w + 1,
        trace := trace w @ [Requested ''GET'' (posts_url so 100 PNone)]\<rparr>)"
  by (simp add: get_posts_def posts_url_def request_def api_anon_def upt_rec retryable_def
      no_api_key_def thenE_def raise_for_status_def json_def make_post_sample Let_def)

lemma feed_page2:
  "get_posts pf feed_tr api_anon so 100 (PStr ''b'') w =
     (Inr ([sample_post ''c''], PNone),
      w\<lparr>calls := calls w + 1,
        trace := trace w @ [Requested ''GET'' (posts_url so 100 (PStr ''b''))]\<rparr>)"
  by (simp add: get_posts_def posts_url_def request_def api_anon_def upt_rec retryable_def
      no_api_key_def thenE_def raise_for_status_def json_def make_post_sample Let_def)

lemma short_page:
  "get_posts pf short_tr api_anon so 100 PNone w =
     (Inr ([sample_post ''a''], PNone),
      w\<lparr>calls := calls w + 1,
        trace := trace w @ [Requested ''GET'' (posts_url so 100 PNone)]\<rparr>)"
  by (simp add: get_posts_def posts_url_def request_def api_anon_def upt_rec retryable_def
      no_api_key_def thenE_def raise_for_status_def json_def make_post_sample short_tr_def
      Let_def)

lemma drained_page:
  "get_posts pf drained_tr api_anon so 100 PNone w =
     (Inr ([], PStr ''zzz''),
      w\<lparr>calls := calls w + 1,
        trace := trace w @ [Requested ''GET'' (posts_url so 100 PNone)]\<rparr>)"
  by (simp add: get_posts_def posts_url_def request_def api_anon_def upt_rec retryable_def
      no_api_key_def thenE_def raise_for_status_def json_def drained_tr_def Let_def)

lemma denied_request:
  "request pf denied_tr api_anon ''GET'' url w =
     (Inr \<lparr>status_code = 401, body = None\<rparr>,
      w\<lparr>calls := calls w + 1, trace := trace w @ [Requested ''GET'' url]\<rparr>)"
  by (simp add: request_def api_anon_def upt_rec retryable_def denied_tr_def Let_def)

lemma feed_run_unlimited:
  "posts_loop sample_platform feed_tr api_anon ''new'' None PNone [] [] world0 =
     Some (Inr [sample_post ''a'', sample_post ''b'', sample_post ''c''],
           [[sample_post ''a'', sample_post ''b''], [sample_post ''c'']],
           \<lparr>calls = 2,
            trace = [Requested ''GET'' (posts_url ''new'' 100 PNone), Slept (1 / 2),
                     Requested ''GET'' (posts_url ''new'' 100 (PStr ''b''))]\<rparr>)"
  by (simp add: loop_continue[OF feed_page1 _ _ _ sample_sleep_half]
      loop_no_cursor[OF feed_page2] limit_reached_def world0_def)

lemma feed_run_limit1:
  "posts_loop sample_platform feed_tr api_anon ''new'' (Some 1) PNone [] [] world0 =
     Some (Inr [sample_post ''a''], [[sample_post ''a'', sample_post ''b'']],
           \<lparr>calls = 1, trace = [Requested ''GET'' (posts_url ''new'' 100 PNone)]\<rparr>)"
  by (simp add: loop_limit[OF feed_page1] limit_reached_def truncate_posts_def
      py_slice_to_def world0_def)

subsection \<open>Unauthenticated access\<close>

lemma get_posts_401:
  assumes "request pf tr api ''GET'' (posts_url so limit before) w = (Inr r, w1)"
    and "status_code r = 401" and "no_api_key api"
  shows "get_posts pf tr api so limit before w = (Inr ([], PNone), w1)"
  using assms by (simp add: get_posts_def)

text \<open>
  C5. When \<open>request\<close> hands \<open>get_posts\<close> a 401 response and the client has no API key,
  \<open>get_posts\<close> returns an empty list of posts and no cursor and raises nothing, so the
  loop of \<open>get_all_posts\<close> ends at that page with the posts collected so far, and
  \<open>get_all_posts\<close> returns the empty list when it is the first page.
\<close>

theorem get_posts_unauthenticated:
  assumes "request pf tr api ''GET'' (posts_url sort_order limit cursor) w = (Inr r, w1)"
    and "status_code r = 401" and "no_api_key api"
  shows "get_posts pf tr api sort_order limit cursor w = (Inr ([], PNone), w1) \<and>
     (limit = 100 \<longrightarrow>
        posts_loop pf tr api sort_order max_posts cursor all_posts pages w =
          Some (Inr all_posts, pages @ [[]], w1) \<and>
        (cursor = PNone \<longrightarrow>
           get_all_posts pf tr api sort_order max_posts w = Some (Inr [], w1)))"
proof -
  have g: "get_posts pf tr api sort_order limit cursor w = (Inr ([], PNone), w1)"
    by (rule get_posts_401[OF assms])
  have a: "posts_loop pf tr api sort_order max_posts cursor all_posts pages w =
      Some (Inr all_posts, pages @ [[]], w1)" if "limit = 100"
    using g that by (simp add: loop_empty)
  have b: "get_all_posts pf tr api sort_order max_posts w = Some (Inr [], w1)"
    if "limit = 100" and "cursor = PNone"
    using g that by (simp add: get_all_posts_def loop_empty)
  from g a b show ?thesis by blast
qed

theorem get_posts_unauthenticated_witness:
  "request sample_platform denied_tr api_anon ''GET'' (posts_url ''new'' 100 PNone) world0 =
     (Inr \<lparr>status_code = 401, body = None\<rparr>,
      \<lparr>calls = 1, trace = [Requested ''GET'' (posts_url ''new'' 100 PNone)]\<rparr>) \<and>
   no_api_key api_anon \<and>
   get_posts sample_platform denied_tr api_anon ''new'' 100 PNone world0 =
     (Inr ([], PNone),
      \<lparr>calls = 1, trace = [Requested ''GET'' (posts_url ''new'' 100 PNone)]\<rparr>) \<and>
   get_all_posts sample_platform denied_tr api_anon ''new'' None world0 =
     Some (Inr [],
           \<lparr>calls = 1, trace = [Requested ''GET'' (posts_url ''new'' 100 PNone)]\<rparr>)"
proof -
  have h1: "request sample_platform denied_tr api_anon ''GET'' (posts_url ''new'' 100 PNone)
       world0 =
     (Inr \<lparr>status_code = 401, body = None\<rparr>,
      \<lparr>calls = 1, trace = [Requested ''GET'' (posts_url ''new'' 100 PNone)]\<rparr>)"
    by (simp add: denied_request world0_def)
  have h2: "status_code \<lparr>status_code = 401, body = None\<rparr> = 401" by simp
  have h3: "no_api_key api_anon" by (simp add: no_api_key_def api_anon_def)
  from get_posts_unauthenticated[OF h1 h2 h3, of None "[]" "[]"] h1 h3
  show ?thesis by simp
qed

subsection \<open>Leaving the loop\<close>

text \<open>
  C6. When a page holds no records the loop ends there: the result is what was
  collected before, whatever cursor the empty page carries, and the world is the one
  right after that page's request, so nothing more is requested. When the first page
  is empty, \<open>get_all_posts\<close> returns the empty list.
\<close>

theorem empty_page_stops:
  assumes "get_posts pf tr api sort_order 100 cursor w = (Inr ([], c), w1)"
  shows "posts_loop pf tr api sort_order max_posts cursor all_posts pages w =
       Some (Inr all_posts, pages @ [[]], w1) \<and>
     (cursor = PNone \<longrightarrow>
        get_all_posts pf tr api sort_order max_posts w = Some (Inr [], w1))"
proof -
  have a: "posts_loop pf tr api sort_order max_posts cursor all_posts pages w =
      Some (Inr all_posts, pages @ [[]], w1)"
    by (rule loop_empty[OF assms])
  have b: "get_all_posts pf tr api sort_order max_posts w = Some (Inr [], w1)"
    if "cursor = PNone"
    using assms that by (simp add: get_all_posts_def loop_empty)
  from a b show ?thesis by blast
qed

theorem empty_page_stops_witness:
  "get_posts sample_platform drained_tr api_anon ''new'' 100 PNone world0 =
     (Inr ([], PStr ''zzz''),
      \<lparr>calls = 1, trace = [Requested ''GET'' (posts_url ''new'' 100 PNone)]\<rparr>) \<and>
   posts_loop sample_platform drained_tr api_anon ''new'' None PNone [sample_post ''a'']
       [[sample_post ''a'']] world0 =
     Some (Inr [sample_post ''a''], [[sample_post ''a''], []],
           \<lparr>calls = 1, trace = [Requested ''GET'' (posts_url ''new'' 100 PNone)]\<rparr>) \<and>
   get_all_posts sample_platform drained_tr api_anon ''new'' None world0 =
     Some (Inr [],
           \<lparr>calls = 1, trace = [Requested ''GET'' (posts_url ''new'' 100 PNone)]\<rparr>)"
proof -
  have h: "get_posts sample_platform drained_tr api_anon ''new'' 100 PNone world0 =
     (Inr ([], PStr ''zzz''),
      \<lparr>calls = 1, trace = [Requested ''GET'' (posts_url ''new'' 100 PNone)]\<rparr>)"
    by (simp add: drained_page world0_def)
  from empty_page_stops[OF h, of None "[sample_post ''a'']" "[[sample_post ''a'']]"] h
  show ?thesis by simp
qed

text \<open>
  C7. When a page holds records and its cursor is absent (or falsy in any other way),
  the loop ends after appending the page: the result is the accumulator with that
  page's records (cut at \<open>max_posts\<close> where that limit is reached), and the world is
  the one right after that page's request, so no further page is requested. When it is
  the first page, this is what \<open>get_all_posts\<close> returns.
\<close>

theorem absent_cursor_stops:
  assumes "get_posts pf tr api sort_order 100 cursor w = (Inr (posts, c), w1)"
    and "posts \<noteq> []" and "\<not> truthy c"
  shows "posts_loop pf tr api sort_order max_posts cursor all_posts pages w =
       Some (Inr (if limit_reached max_posts (all_posts @ posts)
                  then truncate_posts max_posts (all_posts @ posts)
                  else all_posts @ posts), pages @ [posts], w1) \<and>
     (cursor = PNone \<longrightarrow>
        get_all_posts pf tr api sort_order max_posts w =
          Some (Inr (if limit_reached max_posts posts
                     then truncate_posts max_posts posts else posts), w1))"
proof -
  have a: "posts_loop pf tr api sort_order max_posts cursor xs ps w =
       Some (Inr (if limit_reached max_posts (xs @ posts)
                  then truncate_posts max_posts (xs @ posts)
                  else xs @ posts), ps @ [posts], w1)" for xs ps
    using loop_limit[OF assms(1,2)] loop_no_cursor[OF assms(1,2) _ assms(3)]
    by (cases "limit_reached max_posts (xs @ posts)") simp_all
  have b: "get_all_posts pf tr api sort_order max_posts w =
          Some (Inr (if limit_reached max_posts posts
                     then truncate_posts max_posts posts else posts), w1)"
    if "cursor = PNone"
    using a[of "[]" "[]"] that by (simp add: get_all_posts_def)
  from a b show ?thesis by blast
qed

theorem absent_cursor_stops_witness:
  "get_posts sample_platform feed_tr api_anon ''new'' 100 (PStr ''b'')
       \<lparr>calls = 1, trace = [Requested ''GET'' (posts_url ''new'' 100 PNone), Slept (1 / 2)]\<rparr> =
     (Inr ([sample_post ''c''], PNone),
      \<lparr>calls = 2,
       trace = [Requested ''GET'' (posts_url ''new'' 100 PNone), Slept (1 / 2),
                Requested ''GET'' (posts_url ''new'' 100 (PStr ''b''))]\<rparr>) \<and>
   \<not> truthy PNone \<and>
   posts_loop sample_platform feed_tr api_anon ''new'' None (PStr ''b'')
       [sample_post ''a'', sample_post ''b''] [[sample_post ''a'', sample_post ''b'']]
       \<lparr>calls = 1, trace = [Requested ''GET'' (posts_url ''new'' 100 PNone), Slept (1 / 2)]\<rparr> =
     Some (Inr [sample_post ''a'', sample_post ''b'', sample_post ''c''],
           [[sample_post ''a'', sample_post ''b''], [sample_post ''c'']],
           \<lparr>calls = 2,
            trace = [Requested ''GET'' (posts_url ''new'' 100 PNone), Slept (1 / 2),
                     Requested ''GET'' (posts_url ''new'' 100 (PStr ''b''))]\<rparr>) \<and>
   get_posts sample_platform short_tr api_anon ''new'' 100 PNone world0 =
     (Inr ([sample_post ''a''], PNone),
      \<lparr>calls = 1, trace = [Requested ''GET'' (posts_url ''new'' 100 PNone)]\<rparr>) \<and>
   get_all_posts sample_platform short_tr api_anon ''new'' None world0 =
     Some (Inr [sample_post ''a''],
           \<lparr>calls = 1, trace = [Requested ''GET'' (posts_url ''new'' 100 PNone)]\<rparr>)"
proof -
  have h1: "get_posts sample_platform feed_tr api_anon ''new'' 100 (PStr ''b'')
       \<lparr>calls = 1, trace = [Requested ''GET'' (posts_url ''new'' 100 PNone), Slept (1 / 2)]\<rparr> =
     (Inr ([sample_post ''c''], PNone),
      \<lparr>calls = 2,
       trace = [Requested ''GET'' (posts_url ''new'' 100 PNone), Slept (1 / 2),
                Requested ''GET'' (posts_url ''new'' 100 (PStr ''b''))]\<rparr>)"
    by (simp add: feed_page2)
  have h2: "[sample_post ''c''] \<noteq> []" and h3: "\<not> truthy PNone" by simp_all
  have k1: "get_posts sample_platform short_tr api_anon ''new'' 100 PNone world0 =
     (Inr ([sample_post ''a''], PNone),
      \<lparr>calls = 1, trace = [Requested ''GET'' (posts_url ''new'' 100 PNone)]\<rparr>)"
    by (simp add: short_page world0_def)
  have k2: "[sample_post ''a''] \<noteq> []" by simp
  from absent_cursor_stops[OF h1 h2 h3, of None "[sample_post ''a'', sample_post ''b'']"
      "[[sample_post ''a'', sample_post ''b'']]"]
    absent_cursor_stops[OF k1 k2 h3, of None "[]" "[]"] h1 h3 k1
  show ?thesis by (simp add: limit_reached_def)
qed

subsection \<open>The pages a run fetches\<close>

lemma truncate_posts_Nil: "truncate_posts mp [] = []"
  by (simp add: truncate_posts_def py_slice_to_def split: option.split)

lemma pages_fetched_one:
  "get_posts pf tr api so 100 cursor w = (Inr (posts, c), w1) \<Longrightarrow>
   pages_fetched pf tr api so (Suc 0) cursor w = [(posts, c, w1)]"
  by (simp split: sum.split)

lemma pages_fetched_step:
  "get_posts pf tr api so 100 cursor w = (Inr (posts, c), w1) \<Longrightarrow>
   sleep pf (1 / 2) w1 = Inr w2 \<Longrightarrow>
   pages_fetched pf tr api so (Suc k) cursor w =
     (posts, c, w1) # pages_fetched pf tr api so k c w2"
  by simp

declare pages_fetched.simps(2) [simp del]

text \<open>
  A run of the loop that returns a list has fetched a sequence of pages, each with the
  cursor of the page before: it went on after every page but the last, it ended at
  the last page, in the world right after that page's request, and it returns the
  accumulator followed by the records of these pages in order, cut where the limit was
  reached.
\<close>

lemma loop_fetched:
  assumes "posts_loop pf tr api so mp cursor all_posts pages w = Some y"
  shows "\<forall>ps pages' w'. y = (Inr ps, pages', w') \<longrightarrow>
     (\<not> limit_reached mp all_posts \<or> all_posts = []) \<longrightarrow>
     (\<exists>run. run \<noteq> [] \<and> run = pages_fetched pf tr api so (length run) cursor w \<and>
        w' = page_world (last run) \<and> pages' = pages @ map page_posts run \<and>
        list_all goes_further (butlast run) \<and>
        (ends_feed (last run) \<or>
         limit_reached mp (all_posts @ concat (map page_posts run))) \<and>
        ps = (if limit_reached mp (all_posts @ concat (map page_posts run))
              then truncate_posts mp (all_posts @ concat (map page_posts run))
              else all_posts @ concat (map page_posts run)))"
  using assms
proof (induction rule: posts_loop_induct)
  case (error cursor all_posts pages w e w1)
  then show ?case by simp
next
  case (empty cursor all_posts pages w c w1)
  show ?case
  proof (intro allI impI)
    fix ps pages' w'
    assume y: "(Inr all_posts, pages @ [[]], w1) = (Inr ps, pages', w')"
      and inv: "\<not> limit_reached mp all_posts \<or> all_posts = []"
    from inv have t: "truncate_posts mp all_posts = all_posts"
      if "limit_reached mp all_posts"
      using that by (auto simp: truncate_posts_Nil)
    from y t pages_fetched_one[OF empty]
    show "\<exists>run. run \<noteq> [] \<and> run = pages_fetched pf tr api so (length run) cursor w \<and>
        w' = page_world (last run) \<and> pages' = pages @ map page_posts run \<and>
        list_all goes_further (butlast run) \<and>
        (ends_feed (last run) \<or>
         limit_reached mp (all_posts @ concat (map page_posts run))) \<and>
        ps = (if limit_reached mp (all_posts @ concat (map page_posts run))
              then truncate_posts mp (all_posts @ concat (map page_posts run))
              else all_posts @ concat (map page_posts run))"
      by (intro exI[of _ "[([], c, w1)]"])
         (simp add: page_posts_def page_world_def page_cursor_def ends_feed_def)
  qed
next
  case (limit cursor all_posts pages w posts c w1)
  show ?case
  proof (intro allI impI)
    fix ps pages' w'
    assume y: "(Inr (truncate_posts mp (all_posts @ posts)), pages @ [posts], w1) =
        (Inr ps, pages', w')"
    with limit(3) pages_fetched_one[OF limit(1)]
    show "\<exists>run. run \<noteq> [] \<and> run = pages_fetched pf tr api so (length run) cursor w \<and>
        w' = page_world (last run) \<and> pages' = pages @ map page_posts run \<and>
        list_all goes_further (butlast run) \<and>
        (ends_feed (last run) \<or>
         limit_reached mp (all_posts @ concat (map page_posts run))) \<and>
        ps = (if limit_reached mp (all_posts @ concat (map page_posts run))
              then truncate_posts mp (all_posts @ concat (map page_posts run))
              else all_posts @ concat (map page_posts run))"
      by (intro exI[of _ "[(posts, c, w1)]"])
         (simp add: page_posts_def page_world_def page_cursor_def)
  qed
next
  case (no_cursor cursor all_posts pages w posts c w1)
  show ?case
  proof (intro allI impI)
    fix ps pages' w'
    assume y: "(Inr (all_posts @ posts), pages @ [posts], w1) = (Inr ps, pages', w')"
    with no_cursor(3,4) pages_fetched_one[OF no_cursor(1)]
    show "\<exists>run. run \<noteq> [] \<and> run = pages_fetched pf tr api so (length run) cursor w \<and>
        w' = page_world (last run) \<and> pages' = pages @ map page_posts run \<and>
        list_all goes_further (butlast run) \<and>
        (ends_feed (last run) \<or>
         limit_reached mp (all_posts @ concat (map page_posts run))) \<and>
        ps = (if limit_reached mp (all_posts @ concat (map page_posts run))
              then truncate_posts mp (all_posts @ concat (map page_posts run))
              else all_posts @ concat (map page_posts run))"
      by (intro exI[of _ "[(posts, c, w1)]"])
         (simp add: page_posts_def page_world_def page_cursor_def ends_feed_def)
  qed
next
  case (sleep_error cursor all_posts pages w posts c w1 e)
  then show ?case by simp
next
  case (continue cursor all_posts pages w posts c w1 w2 y)
  show ?case
  proof (intro allI impI)
    fix ps pages' w'
    assume y: "y = (Inr ps, pages', w')"
    with continue(3) continue(7) obtain run where
      ne: "run \<noteq> []"
      and run: "run = pages_fetched pf tr api so (length run) c w2"
      and w': "w' = page_world (last run)"
      and pages': "pages' = (pages @ [posts]) @ map page_posts run"
      and further: "list_all goes_further (butlast run)"
      and stop: "ends_feed (last run) \<or>
         limit_reached mp ((all_posts @ posts) @ concat (map page_posts run))"
      and ps: "ps = (if limit_reached mp ((all_posts @ posts) @ concat (map page_posts run))
              then truncate_posts mp ((all_posts @ posts) @ concat (map page_posts run))
              else (all_posts @ posts) @ concat (map page_posts run))"
      by blast
    have first: "goes_further (posts, c, w1)"
      using continue(2,4) by (simp add: goes_further_def page_posts_def page_cursor_def)
    have fetched: "pages_fetched pf tr api so (Suc (length run)) cursor w =
        (posts, c, w1) # run"
      using pages_fetched_step[OF continue(1) continue(5), of "length run"] run by simp
    from ne w' pages' further stop ps first fetched
    show "\<exists>run. run \<noteq> [] \<and> run = pages_fetched pf tr api so (length run) cursor w \<and>
        w' = page_world (last run) \<and> pages' = pages @ map page_posts run \<and>
        list_all goes_further (butlast run) \<and>
        (ends_feed (last run) \<or>
         limit_reached mp (all_posts @ concat (map page_posts run))) \<and>
        ps = (if limit_reached mp (all_posts @ concat (map page_posts run))
              then truncate_posts mp (all_posts @ concat (map page_posts run))
              else all_posts @ concat (map page_posts run))"
      by (intro exI[of _ "(posts, c, w1) # run"]) (simp add: page_posts_def)
  qed
qed

text \<open>
  The other way round, for a run with no limit or the limit 0: when the pages fetched
  go on up to a page that ends the feed, the loop returns at that page with all their
  records.
\<close>

lemma loop_of_fetched:
  assumes "mp = None \<or> mp = Some 0"
  shows "run \<noteq> [] \<Longrightarrow> run = pages_fetched pf tr api so (length run) cursor w \<Longrightarrow>
     list_all goes_further (butlast run) \<Longrightarrow> ends_feed (last run) \<Longrightarrow>
     posts_loop pf tr api so mp cursor all_posts pages w =
       Some (Inr (all_posts @ concat (map page_posts run)), pages @ map page_posts run,
             page_world (last run))"
proof (induction run arbitrary: cursor all_posts pages w)
  case Nil
  then show ?case by simp
next
  case (Cons p rest)
  have nl: "\<not> limit_reached mp xs" for xs :: "Post list"
    using assms by (auto simp: limit_reached_def)
  from Cons.prems(2) obtain posts c w1 where
    g: "get_posts pf tr api so 100 cursor w = (Inr (posts, c), w1)"
    and p: "p = (posts, c, w1)"
    and rest: "rest = (case sleep pf (1 / 2) w1 of
                 Inl e \<Rightarrow> []
               | Inr w2 \<Rightarrow> pages_fetched pf tr api so (length rest) c w2)"
    by (auto simp: pages_fetched.simps(2) split: prod.splits sum.splits)
  show ?case
  proof (cases "rest = []")
    case True
    with Cons.prems(4) p have "posts = [] \<or> \<not> truthy c"
      by (simp add: ends_feed_def page_posts_def page_cursor_def)
    then show ?thesis
    proof
      assume "posts = []"
      with g True p show ?thesis
        by (simp add: loop_empty page_posts_def page_world_def)
    next
      assume nc: "\<not> truthy c"
      show ?thesis
      proof (cases "posts = []")
        case True
        with g \<open>rest = []\<close> p show ?thesis
          by (simp add: loop_empty page_posts_def page_world_def)
      next
        case False
        from loop_no_cursor[OF g False nl nc] \<open>rest = []\<close> p show ?thesis
          by (simp add: page_posts_def page_world_def)
      qed
    qed
  next
    case False
    with rest obtain w2 where
      sl: "sleep pf (1 / 2) w1 = Inr w2"
      and rest': "rest = pages_fetched pf tr api so (length rest) c w2"
      by (cases "sleep pf (1 / 2) w1") auto
    from Cons.prems(3) False p have gf: "posts \<noteq> []" "truthy c"
      by (simp_all add: goes_further_def page_posts_def page_cursor_def)
    from Cons.prems(3,4) False
    have "list_all goes_further (butlast rest)" and "ends_feed (last rest)"
      by simp_all
    from Cons.IH[OF False rest' this, of "all_posts @ posts" "pages @ [posts]"]
      loop_continue[OF g gf(1) nl gf(2) sl] False p
    show ?thesis by (simp add: page_posts_def)
  qed
qed

subsection \<open>The limit \<open>max_posts\<close>\<close>

text \<open>A run with the limit 0 and a run with no limit return the same, each way round.\<close>

lemma loop_zero_none:
  assumes "posts_loop pf tr api so (Some 0) cursor all_posts pages w = Some y"
  shows "posts_loop pf tr api so None cursor all_posts pages w = Some y"
  using assms
proof (induction rule: posts_loop_induct)
  case (error cursor all_posts pages w e w1)
  then show ?case by (rule loop_error)
next
  case (empty cursor all_posts pages w c w1)
  then show ?case by (rule loop_empty)
next
  case (limit cursor all_posts pages w posts c w1)
  then show ?case by (simp add: limit_reached_def)
next
  case (no_cursor cursor all_posts pages w posts c w1)
  then show ?case by (simp add: loop_no_cursor limit_reached_def)
next
  case (sleep_error cursor all_posts pages w posts c w1 e)
  then show ?case by (simp add: loop_sleep_error limit_reached_def)
next
  case (continue cursor all_posts pages w posts c w1 w2 y)
  from continue(1,2,4,5) have "posts_loop pf tr api so None cursor all_posts pages w =
      posts_loop pf tr api so None c (all_posts @ posts) (pages @ [posts]) w2"
    by (intro loop_continue) (simp_all add: limit_reached_def)
  with continue(7) show ?case by simp
qed

lemma loop_none_zero:
  assumes "posts_loop pf tr api so None cursor all_posts pages w = Some y"
  shows "posts_loop pf tr api so (Some 0) cursor all_posts pages w = Some y"
  using assms
proof (induction rule: posts_loop_induct)
  case (error cursor all_posts pages w e w1)
  then show ?case by (rule loop_error)
next
  case (empty cursor all_posts pages w c w1)
  then show ?case by (rule loop_empty)
next
  case (limit cursor all_posts pages w posts c w1)
  then show ?case by (simp add: limit_reached_def)
next
  case (no_cursor cursor all_posts pages w posts c w1)
  then show ?case by (simp add: loop_no_cursor limit_reached_def)
next
  case (sleep_error cursor all_posts pages w posts c w1 e)
  then show ?case by (simp add: loop_sleep_error limit_reached_def)
next
  case (continue cursor all_posts pages w posts c w1 w2 y)
  from continue(1,2,4,5) have "posts_loop pf tr api so (Some 0) cursor all_posts pages w =
      posts_loop pf tr api so (Some 0) c (all_posts @ posts) (pages @ [posts]) w2"
    by (intro loop_continue) (simp_all add: limit_reached_def)
  with continue(7) show ?case by simp
qed

lemma loop_zero_eq:
  "posts_loop pf tr api so (Some 0) cursor all_posts pages w =
     posts_loop pf tr api so None cursor all_posts pages w"
proof (cases "posts_loop pf tr api so (Some 0) cursor all_posts pages w")
  case None
  show ?thesis
  proof (cases "posts_loop pf tr api so None cursor all_posts pages w")
    case (Some y)
    from loop_none_zero[OF Some] None show ?thesis by simp
  qed (simp add: None)
next
  case (Some y)
  from loop_zero_none[OF Some] Some show ?thesis by simp
qed

lemma loop_fetched_start:
  assumes "posts_loop pf tr api so mp PNone [] [] w = Some (Inr ps, pages', w')"
  shows "\<exists>run. run \<noteq> [] \<and> run = pages_fetched pf tr api so (length run) PNone w \<and>
     w' = page_world (last run) \<and>
     list_all goes_further (butlast run) \<and>
     (ends_feed (last run) \<or> limit_reached mp (concat (map page_posts run))) \<and>
     ps = (if limit_reached mp (concat (map page_posts run))
           then truncate_posts mp (concat (map page_posts run))
           else concat (map page_posts run))"
proof -
  have inv: "\<not> limit_reached mp ([] :: Post list) \<or> ([] :: Post list) = []" by simp
  from loop_fetched[OF assms, rule_format, OF refl inv, unfolded append_Nil]
  show ?thesis by blast
qed

lemma feed_fetched:
  "pages_fetched sample_platform feed_tr api_anon ''new'' (Suc (Suc 0)) PNone world0 =
     [([sample_post ''a'', sample_post ''b''], PStr ''b'',
       \<lparr>calls = 1, trace = [Requested ''GET'' (posts_url ''new'' 100 PNone)]\<rparr>),
      ([sample_post ''c''], PNone,
       \<lparr>calls = 2,
        trace = [Requested ''GET'' (posts_url ''new'' 100 PNone), Slept (1 / 2),
                 Requested ''GET'' (posts_url ''new'' 100 (PStr ''b''))]\<rparr>)]"
  by (simp add: pages_fetched_step[OF feed_page1 sample_sleep_half]
      pages_fetched_one[OF feed_page2] world0_def)

text \<open>
  C9. \<open>get_all_posts\<close> with \<open>max_posts = 0\<close> is \<open>get_all_posts\<close> with no maximum:
  the two runs make the same requests and return the same, or both run forever (this
  holds for the loop from any cursor and accumulator). The limit exit is never taken:
  the call returns a list exactly when the pages fetched go on, each non-empty and with
  a cursor, up to a page that is empty or has no cursor; it then returns all the
  records of all these pages, not zero records, in the world right after the last
  page's request.
\<close>

theorem max_posts_zero_unlimited:
  "posts_loop pf tr api sort_order (Some 0) cursor all_posts pages w =
     posts_loop pf tr api sort_order None cursor all_posts pages w \<and>
   get_all_posts pf tr api sort_order (Some 0) w = get_all_posts pf tr api sort_order None w \<and>
   (get_all_posts pf tr api sort_order (Some 0) w = Some (Inr ps, w') \<longleftrightarrow>
      (\<exists>run. run \<noteq> [] \<and>
         run = pages_fetched pf tr api sort_order (length run) PNone w \<and>
         list_all goes_further (butlast run) \<and> ends_feed (last run) \<and>
         ps = concat (map page_posts run) \<and> w' = page_world (last run)))"
proof (intro conjI iffI)
  show "posts_loop pf tr api sort_order (Some 0) cursor all_posts pages w =
     posts_loop pf tr api sort_order None cursor all_posts pages w"
    by (rule loop_zero_eq)
  show "get_all_posts pf tr api sort_order (Some 0) w =
      get_all_posts pf tr api sort_order None w"
    by (simp add: get_all_posts_def loop_zero_eq)
next
  assume "get_all_posts pf tr api sort_order (Some 0) w = Some (Inr ps, w')"
  then obtain pages' where
    run: "posts_loop pf tr api sort_order (Some 0) PNone [] [] w = Some (Inr ps, pages', w')"
    by (auto simp: get_all_posts_def)
  have nl: "\<not> limit_reached (Some 0) xs" for xs :: "Post list"
    by (simp add: limit_reached_def)
  from loop_fetched_start[OF run] nl
  show "\<exists>run. run \<noteq> [] \<and>
         run = pages_fetched pf tr api sort_order (length run) PNone w \<and>
         list_all goes_further (butlast run) \<and> ends_feed (last run) \<and>
         ps = concat (map page_posts run) \<and> w' = page_world (last run)"
    by auto
next
  assume "\<exists>run. run \<noteq> [] \<and>
         run = pages_fetched pf tr api sort_order (length run) PNone w \<and>
         list_all goes_further (butlast run) \<and> ends_feed (last run) \<and>
         ps = concat (map page_posts run) \<and> w' = page_world (last run)"
  then obtain run where "run \<noteq> []"
    and "run = pages_fetched pf tr api sort_order (length run) PNone w"
    and "list_all goes_further (butlast run)" and "ends_feed (last run)"
    and res: "ps = concat (map page_posts run)" "w' = page_world (last run)"
    by blast
  from loop_of_fetched[where mp = "Some 0" and all_posts = "[]" and pages = "[]",
      OF _ this(1-4)] res
  show "get_all_posts pf tr api sort_order (Some 0) w = Some (Inr ps, w')"
    by (simp add: get_all_posts_def)
qed

theorem max_posts_zero_unlimited_witness:
  "pages_fetched sample_platform feed_tr api_anon ''new'' 2 PNone world0 =
     [([sample_post ''a'', sample_post ''b''], PStr ''b'',
       \<lparr>calls = 1, trace = [Requested ''GET'' (posts_url ''new'' 100 PNone)]\<rparr>),
      ([sample_post ''c''], PNone,
       \<lparr>calls = 2,
        trace = [Requested ''GET'' (posts_url ''new'' 100 PNone), Slept (1 / 2),
                 Requested ''GET'' (posts_url ''new'' 100 (PStr ''b''))]\<rparr>)] \<and>
   get_all_posts sample_platform feed_tr api_anon ''new'' (Some 0) world0 =
     Some (Inr [sample_post ''a'', sample_post ''b'', sample_post ''c''],
           \<lparr>calls = 2,
            trace = [Requested ''GET'' (posts_url ''new'' 100 PNone), Slept (1 / 2),
                     Requested ''GET'' (posts_url ''new'' 100 (PStr ''b''))]\<rparr>) \<and>
   get_all_posts sample_platform feed_tr api_anon ''new'' None world0 =
     get_all_posts sample_platform feed_tr api_anon ''new'' (Some 0) world0"
proof -
  let ?w1 = "\<lparr>calls = 1, trace = [Requested ''GET'' (posts_url ''new'' 100 PNone)]\<rparr>"
  let ?w2 = "\<lparr>calls = 2,
        trace = [Requested ''GET'' (posts_url ''new'' 100 PNone), Slept (1 / 2),
                 Requested ''GET'' (posts_url ''new'' 100 (PStr ''b''))]\<rparr>"
  let ?run = "[([sample_post ''a'', sample_post ''b''], PStr ''b'', ?w1),
      ([sample_post ''c''], PNone, ?w2)]"
  have f: "pages_fetched sample_platform feed_tr api_anon ''new'' 2 PNone world0 = ?run"
    using feed_fetched by (simp add: numeral_2_eq_2)
  have ex: "\<exists>run. run \<noteq> [] \<and>
         run = pages_fetched sample_platform feed_tr api_anon ''new'' (length run) PNone world0 \<and>
         list_all goes_further (butlast run) \<and> ends_feed (last run) \<and>
         [sample_post ''a'', sample_post ''b'', sample_post ''c''] =
           concat (map page_posts run) \<and>
         ?w2 = page_world (last run)"
    by (intro exI[of _ ?run])
       (simp add: feed_fetched goes_further_def ends_feed_def page_posts_def
          page_cursor_def page_world_def)
  from max_posts_zero_unlimited[of sample_platform feed_tr api_anon "''new''" PNone "[]" "[]"
      world0 "[sample_post ''a'', sample_post ''b'', sample_post ''c'']" ?w2]
  have eq: "get_all_posts sample_platform feed_tr api_anon ''new'' (Some 0) world0 =
      get_all_posts sample_platform feed_tr api_anon ''new'' None world0"
    and iff: "get_all_posts sample_platform feed_tr api_anon ''new'' (Some 0) world0 =
        Some (Inr [sample_post ''a'', sample_post ''b'', sample_post ''c''], ?w2) \<longleftrightarrow>
      (\<exists>run. run \<noteq> [] \<and>
         run = pages_fetched sample_platform feed_tr api_anon ''new'' (length run) PNone world0 \<and>
         list_all goes_further (butlast run) \<and> ends_feed (last run) \<and>
         [sample_post ''a'', sample_post ''b'', sample_post ''c''] =
           concat (map page_posts run) \<and>
         ?w2 = page_world (last run))"
    by blast+
  from iff ex
  have r: "get_all_posts sample_platform feed_tr api_anon ''new'' (Some 0) world0 =
        Some (Inr [sample_post ''a'', sample_post ''b'', sample_post ''c''], ?w2)"
    by blast
  from f r eq[symmetric] show ?thesis by simp
qed



text \<open>
  C3 at \<open>max_posts = 0\<close>. The feed holds three records, more than 0, and
  \<open>get_all_posts\<close> returns all three of them after fetching both pages: the test
  \<^verbatim>\<open>max_posts and ...\<close> is false for 0, so the list is never cut.
\<close>

theorem get_all_posts_max_posts_zero:
  "get_all_posts sample_platform feed_tr api_anon ''new'' (Some 0) world0 =
     Some (Inr [sample_post ''a'', sample_post ''b'', sample_post ''c''],
           \<lparr>calls = 2,
            trace = [Requested ''GET'' (posts_url ''new'' 100 PNone), Slept (1 / 2),
                     Requested ''GET'' (posts_url ''new'' 100 (PStr ''b''))]\<rparr>) \<and>
   length [sample_post ''a'', sample_post ''b'', sample_post ''c''] = 3"
  by (simp add: get_all_posts_def loop_none_zero[OF feed_run_unlimited])

text \<open>
  With a limit of at least one the loop always returns: every iteration that goes on has
  added a record and stayed below the limit.
\<close>

lemma loop_terminates_limit:
  assumes "0 < N"
  shows "\<exists>y. posts_loop pf tr api so (Some N) cursor all_posts pages w = Some y"
proof (induction "nat N - length all_posts" arbitrary: cursor all_posts pages w
    rule: less_induct)
  case less
  show ?case
  proof (cases rule: loop_cases[where pf = pf and tr = tr and api = api and so = so
            and cursor = cursor and w = w and mp = "Some N" and all_posts = all_posts])
    case (error e w1)
    then show ?thesis by (simp add: loop_error)
  next
    case (empty c w1)
    then show ?thesis by (simp add: loop_empty)
  next
    case (limit posts c w1)
    then show ?thesis by (simp add: loop_limit)
  next
    case (no_cursor posts c w1)
    then show ?thesis by (simp add: loop_no_cursor)
  next
    case (sleep_error posts c w1 e)
    then show ?thesis by (simp add: loop_sleep_error)
  next
    case (continue posts c w1 w2)
    from continue(2,3) assms
    have "nat N - length (all_posts @ posts) < nat N - length all_posts"
      by (cases posts) (auto simp: limit_reached_def)
    from less[OF this] show ?thesis by (simp add: loop_continue[OF continue])
  qed
qed

text \<open>
  A run with no limit returns an extension of its accumulator, and a run with the limit
  \<open>N\<close> returns the first \<open>N\<close> records of what the run with no limit returns, when
  that holds \<open>N\<close> records or more.
\<close>

lemma loop_extends:
  assumes "posts_loop pf tr api so None cursor all_posts pages w = Some y"
  shows "\<forall>ps pages' w'. y = (Inr ps, pages', w') \<longrightarrow> (\<exists>zs. ps = all_posts @ zs)"
  using assms
proof (induction rule: posts_loop_induct)
  case (limit cursor all_posts pages w posts c w1)
  then show ?case by (simp add: limit_reached_def)
qed auto

lemma loop_limit_of_unlimited:
  assumes "posts_loop pf tr api so None cursor all_posts pages w = Some y" and "0 < N"
  shows "\<forall>ps pages' w'. y = (Inr ps, pages', w') \<longrightarrow> int (length all_posts) < N \<longrightarrow>
       N \<le> int (length ps) \<longrightarrow>
       (\<exists>pages'' w''. posts_loop pf tr api so (Some N) cursor all_posts pages w =
           Some (Inr (take (nat N) ps), pages'', w''))"
  using assms(1)
proof (induction rule: posts_loop_induct)
  case (error cursor all_posts pages w e w1)
  then show ?case by simp
next
  case (empty cursor all_posts pages w c w1)
  then show ?case by simp
next
  case (limit cursor all_posts pages w posts c w1)
  then show ?case by (simp add: limit_reached_def)
next
  case (no_cursor cursor all_posts pages w posts c w1)
  show ?case
  proof (intro allI impI)
    fix ps pages' w'
    assume y: "(Inr (all_posts @ posts), pages @ [posts], w1) = (Inr ps, pages', w')"
      and "N \<le> int (length ps)"
    then have "limit_reached (Some N) (all_posts @ posts)"
      using assms(2) by (auto simp: limit_reached_def)
    from loop_limit[OF no_cursor(1,2) this] y assms(2)
    show "\<exists>pages'' w''. posts_loop pf tr api so (Some N) cursor all_posts pages w =
           Some (Inr (take (nat N) ps), pages'', w'')"
      by (auto simp: truncate_posts_def py_slice_to_def)
  qed
next
  case (sleep_error cursor all_posts pages w posts c w1 e)
  then show ?case by simp
next
  case (continue cursor all_posts pages w posts c w1 w2 y)
  show ?case
  proof (intro allI impI)
    fix ps pages' w'
    assume y: "y = (Inr ps, pages', w')" and lt: "int (length all_posts) < N"
      and le: "N \<le> int (length ps)"
    from loop_extends[OF continue(6)] y obtain zs where zs: "ps = (all_posts @ posts) @ zs"
      by blast
    show "\<exists>pages'' w''. posts_loop pf tr api so (Some N) cursor all_posts pages w =
           Some (Inr (take (nat N) ps), pages'', w'')"
    proof (cases "N \<le> int (length (all_posts @ posts))")
      case True
      then have "limit_reached (Some N) (all_posts @ posts)"
        using assms(2) by (auto simp: limit_reached_def)
      from loop_limit[OF continue(1,2) this] True zs assms(2)
      show ?thesis by (auto simp: truncate_posts_def py_slice_to_def)
    next
      case False
      then have nl: "\<not> limit_reached (Some N) (all_posts @ posts)"
        by (auto simp: limit_reached_def)
      from False continue(7) y le obtain pages'' w'' where
        "posts_loop pf tr api so (Some N) c (all_posts @ posts) (pages @ [posts]) w2 =
           Some (Inr (take (nat N) ps), pages'', w'')"
        by (auto simp: not_le)
      with loop_continue[OF continue(1,2) nl continue(4,5)] show ?thesis by simp
    qed
  qed
qed

text \<open>
  For a limit \<open>N\<close> of at least one, \<open>get_all_posts\<close> always returns; a list it
  returns holds at most \<open>N\<close> records, and when the run with no limit returns \<open>N\<close>
  records or more, it is the first \<open>N\<close> of them.
\<close>

theorem get_all_posts_positive_limit:
  assumes "0 < N"
  shows "\<exists>res w'.
     get_all_posts pf tr api sort_order (Some N) w = Some (res, w') \<and>
     (\<forall>ps. res = Inr ps \<longrightarrow> int (length ps) \<le> N) \<and>
     (\<forall>every w0.
        get_all_posts pf tr api sort_order None w = Some (Inr every, w0) \<longrightarrow>
        N \<le> int (length every) \<longrightarrow> res = Inr (take (nat N) every))"
proof -
  from loop_terminates_limit[OF assms] obtain res pages w' where
    run: "posts_loop pf tr api sort_order (Some N) PNone [] [] w = Some (res, pages, w')"
    by (metis prod_cases3)
  have a: "get_all_posts pf tr api sort_order (Some N) w = Some (res, w')"
    using run by (simp add: get_all_posts_def)
  have b: "int (length ps) \<le> N" if "res = Inr ps" for ps
  proof -
    from run that
    have "posts_loop pf tr api sort_order (Some N) PNone [] [] w = Some (Inr ps, pages, w')"
      by simp
    from loop_fetched_start[OF this] obtain rn where
      "ps = (if limit_reached (Some N) (concat (map page_posts rn))
             then truncate_posts (Some N) (concat (map page_posts rn))
             else concat (map page_posts rn))"
      by blast
    with assms show ?thesis
      by (auto simp: limit_reached_def truncate_posts_def py_slice_to_def)
  qed
  have c: "res = Inr (take (nat N) every)"
    if "get_all_posts pf tr api sort_order None w = Some (Inr every, w0)"
      and "N \<le> int (length every)" for every w0
  proof -
    from that(1) obtain pages0 where
      "posts_loop pf tr api sort_order None PNone [] [] w = Some (Inr every, pages0, w0)"
      by (auto simp: get_all_posts_def)
    from loop_limit_of_unlimited[OF this assms] that(2) assms run show ?thesis by auto
  qed
  from a b c show ?thesis by blast
qed

section \<open>Properties of \<open>get_post_comments\<close>\<close>

lemma make_comment_post_id:
  "make_comment post_id c = Inr x \<Longrightarrow> c_post_id x = post_id"
  by (auto simp: make_comment_def thenE_def split: sum.splits)

lemma make_comments_post_id:
  "make_comments post_id items = Inr cs \<Longrightarrow> \<forall>c \<in> set cs. c_post_id c = post_id"
proof (induction items arbitrary: cs)
  case Nil
  then show ?case by simp
next
  case (Cons a items)
  then show ?case
    by (auto simp: thenE_def split: sum.splits dest: make_comment_post_id)
qed

text \<open>
  C10. Every \<^verbatim>\<open>Comment\<close> that \<open>get_post_comments\<close> returns has the \<open>post_id\<close> the
  function was called with, whatever the response body says. (The list returned for a
  401 without a key is empty.)
\<close>

theorem comments_carry_post_id:
  assumes "get_post_comments pf tr api post_id sort_order w = (Inr cs, w')"
  shows "\<forall>c \<in> set cs. c_post_id c = post_id"
  using assms
  by (auto simp: get_post_comments_def thenE_def split: prod.splits sum.splits if_splits
      dest: make_comments_post_id)

theorem comments_carry_post_id_witness:
  "get_post_comments sample_platform comments_tr api_anon ''p7'' ''top'' world0 =
     (Inr [\<lparr>c_id = PStr ''k1'', c_content = PStr ''hi'', c_author = PDict [],
            c_upvotes = PInt 2, c_downvotes = PInt 0, c_created_at = PStr ''2026-01-30'',
            c_post_id = ''p7'', c_parent_id = PNone\<rparr>],
      \<lparr>calls = 1, trace = [Requested ''GET'' (comments_url ''p7'' ''top'')]\<rparr>) \<and>
   map c_post_id
     [\<lparr>c_id = PStr ''k1'', c_content = PStr ''hi'', c_author = PDict [],
       c_upvotes = PInt 2, c_downvotes = PInt 0, c_created_at = PStr ''2026-01-30'',
       c_post_id = ''p7'', c_parent_id = PNone\<rparr>] = [''p7'']"
proof -
  have h: "get_post_comments sample_platform comments_tr api_anon ''p7'' ''top'' world0 =
     (Inr [\<lparr>c_id = PStr ''k1'', c_content = PStr ''hi'', c_author = PDict [],
            c_upvotes = PInt 2, c_downvotes = PInt 0, c_created_at = PStr ''2026-01-30'',
            c_post_id = ''p7'', c_parent_id = PNone\<rparr>],
      \<lparr>calls = 1, trace = [Requested ''GET'' (comments_url ''p7'' ''top'')]\<rparr>)"
    by (simp add: get_post_comments_def request_def api_anon_def upt_rec retryable_def
        no_api_key_def thenE_def raise_for_status_def json_def comments_tr_def
        make_comment_def world0_def Let_def)
  from comments_carry_post_id[OF h] h show ?thesis by simp
qed

end
